theory Spec2Isabelle
  imports Complex_Main "HOL-Library.AList"
begin

section \<open>Data model of the session server (server/index.js)\<close>

text \<open>
  The server keeps every room in one object, \<^verbatim>\<open>roomsCache\<close>, keyed by room id; every
  function reads it through \<^verbatim>\<open>getRooms\<close> and mutates the rooms in place. The model passes
  that object explicitly, as an association list from room ids to rooms, together with
  the live \<^verbatim>\<open>setInterval\<close> countdowns and the pending \<^verbatim>\<open>setTimeout\<close> continuations.

  The server runs on one event loop. Each function below is one callback of the source
  taken as a single step, run to completion before the next one starts: the suspensions
  inside a callback (\<^verbatim>\<open>await getRooms()\<close>, \<^verbatim>\<open>await getWords()\<close>, \<^verbatim>\<open>await saveRooms(...)\<close>)
  are not interleaving points of the model, and the call of \<^verbatim>\<open>startRoundTimer\<close> that ends
  \<^verbatim>\<open>startGame\<close> and the round advance belongs to the same step. The write to the file is
  not modelled; the cache is the authority.

  Times are integers, the milliseconds since the epoch that a \<^verbatim>\<open>Date\<close> holds. Strings are
  byte sequences (UTF-8); lower-casing and trimming are modelled on the ASCII range.
  A value returned by \<^verbatim>\<open>Math.random()\<close> is a rational parameter of the function that
  calls it, and the arithmetic on it is exact.
\<close>

datatype status = Waiting | Playing | RoundEnd | GameEnd

record game_settings =
  maxPlayers :: int
  roundDuration :: int
  rounds :: int
  wordCount :: int
  hints :: int

text \<open>The \<^verbatim>\<open>{id, name, avatar}\<close> snapshot of its author that a message carries.\<close>

record user =
  uid :: string
  uname :: string
  uavatar :: "string option"

text \<open>
  The object a client sends with \<^verbatim>\<open>joinRoom\<close>. The server copies it with a spread, so
  every key the client put in it counts: \<^verbatim>\<open>id\<close> and \<^verbatim>\<open>name\<close> are taken as present, as
  the client's interface declares them; \<^verbatim>\<open>avatar\<close>, \<^verbatim>\<open>score\<close> and \<^verbatim>\<open>isDrawing\<close> are \<open>None\<close>
  when the key is absent (an avatar that is present may be \<^verbatim>\<open>null\<close>). A key \<^verbatim>\<open>isConnected\<close>
  is overwritten in both branches of \<^verbatim>\<open>joinRoom\<close> and is left out.
\<close>

record client_player =
  cid :: string
  cname :: string
  cavatar :: "string option option"
  cscore :: "int option"
  cisDrawing :: "bool option"

record player =
  pid :: string
  pname :: string
  avatar :: "string option"
  score :: int
  isDrawing :: bool
  isConnected :: bool

record message =
  mid :: string
  user :: user
  mtext :: string
  isCorrect :: bool
  timestamp :: int

text \<open>
  \<^verbatim>\<open>currentWord\<close> is \<open>None\<close> when a word pick read past the end of the word list
  (\<^verbatim>\<open>undefined\<close>); \<^verbatim>\<open>drawingPlayerId\<close> is \<open>None\<close> for \<^verbatim>\<open>null\<close>; \<^verbatim>\<open>createdAt\<close> is \<open>None\<close> when
  the field is missing or empty. A missing \<^verbatim>\<open>correctGuessers\<close> is the empty list, which is
  what \<^verbatim>\<open>addMessage\<close> turns it into before it reads it.
\<close>

record room =
  rid :: string
  hostId :: string
  settings :: game_settings
  players :: "player list"
  messages :: "message list"
  currentRound :: int
  totalRounds :: int
  currentWord :: "string option"
  drawingPlayerId :: "string option"
  gameStatus :: status
  roundTimeLeft :: int
  correctGuessers :: "string list"
  createdAt :: "int option"

type_synonym store = "(string \<times> room) list"

text \<open>
  The server state: the room store, one entry of \<open>intervals\<close> for every live
  \<^verbatim>\<open>setInterval\<close> countdown (named by the room id its closure holds) and one entry of
  \<open>timeouts\<close> for every pending \<^verbatim>\<open>setTimeout\<close> continuation of \<^verbatim>\<open>endRound\<close>.
\<close>

record server =
  rooms :: store
  intervals :: "string list"
  timeouts :: "string list"

datatype failure =
  RoomNotFound | RoomFull | PlayerNotFound | InsufficientPlayers | GameNotInProgress
  | TypeError

text \<open>
  The \<^verbatim>\<open>message\<close> of a returned \<^verbatim>\<open>{success: false, message}\<close>; a \<^verbatim>\<open>TypeError\<close> is thrown,
  not returned.
\<close>

fun failure_message :: "failure \<Rightarrow> string option" where
  "failure_message RoomNotFound = Some ''Room not found''"
| "failure_message RoomFull = Some ''Room is full''"
| "failure_message PlayerNotFound = Some ''Player not found in room''"
| "failure_message InsufficientPlayers = Some ''Need at least 2 players to start''"
| "failure_message GameNotInProgress = Some ''Game is not in progress''"
| "failure_message TypeError = None"

subsection \<open>JavaScript built-ins used by the server\<close>

text \<open>\<^verbatim>\<open>Array.prototype.findIndex\<close>: the first index whose element satisfies \<open>P\<close>, else -1.\<close>

fun findIndex :: "('a \<Rightarrow> bool) \<Rightarrow> 'a list \<Rightarrow> int" where
  "findIndex P [] = - 1"
| "findIndex P (x # xs) =
     (if P x then 0 else (let i = findIndex P xs in if i = - 1 then - 1 else i + 1))"

text \<open>\<^verbatim>\<open>xs[i]\<close>: \<open>None\<close> is \<^verbatim>\<open>undefined\<close>, the value of a read outside the array.\<close>

definition arrayAt :: "'a list \<Rightarrow> int \<Rightarrow> 'a option" where
  "arrayAt xs i = (if 0 \<le> i \<and> i < int (length xs) then Some (xs ! nat i) else None)"

text \<open>\<^verbatim>\<open>Math.floor(Math.random() * n)\<close>, with \<open>r\<close> the value \<^verbatim>\<open>Math.random()\<close> returned.\<close>

definition randomIndex :: "rat \<Rightarrow> nat \<Rightarrow> int" where
  "randomIndex r n = \<lfloor>r * of_nat n\<rfloor>"

definition toLowerChar :: "char \<Rightarrow> char" where
  "toLowerChar c =
     (let n = (of_char c :: nat) in if 65 \<le> n \<and> n \<le> 90 then char_of (n + 32) else c)"

definition toLowerCase :: "string \<Rightarrow> string" where
  "toLowerCase s = map toLowerChar s"

definition isWhiteSpace :: "char \<Rightarrow> bool" where
  "isWhiteSpace c = (let n = (of_char c :: nat) in (9 \<le> n \<and> n \<le> 13) \<or> n = 32)"

definition trim :: "string \<Rightarrow> string" where
  "trim s = rev (dropWhile isWhiteSpace (rev (dropWhile isWhiteSpace s)))"

subsection \<open>addMessage\<close>

text \<open>The two fixed texts that replace a guess; the first starts with U+1F3AF in UTF-8.\<close>

definition guessedMarker :: string where
  "guessedMarker =
     [char_of (240 :: nat), char_of (159 :: nat), char_of (142 :: nat), char_of (175 :: nat)]
     @ '' Guessed the word!''"

definition alreadyMarker :: string where
  "alreadyMarker = ''Already guessed''"

text \<open>The \<^verbatim>\<open>score += 100\<close> on the first player with the author's id, when there is one.\<close>

definition awardScore :: "string \<Rightarrow> player list \<Rightarrow> player list" where
  "awardScore author ps =
     (let playerIndex = findIndex (\<lambda>p. pid p = author) ps in
      if playerIndex \<noteq> - 1
      then ps[nat playerIndex := (ps ! nat playerIndex)\<lparr>score := score (ps ! nat playerIndex) + 100\<rparr>]
      else ps)"

text \<open>The tail of \<^verbatim>\<open>addMessage\<close>: stamp the message, push it, save the room.\<close>

definition pushMessage :: "string \<Rightarrow> room \<Rightarrow> message \<Rightarrow> bool \<Rightarrow> int \<Rightarrow> server \<Rightarrow> server" where
  "pushMessage roomId room message c now st =
     st\<lparr>rooms := AList.update roomId
        (room\<lparr>messages := messages room @ [message\<lparr>isCorrect := c, timestamp := now\<rparr>]\<rparr>)
        (rooms st)\<rparr>"

text \<open>
  \<^verbatim>\<open>addMessage(roomId, message)\<close>, with \<open>now\<close> the clock read for the timestamp. The result
  is \<open>Inr isCorrect\<close> for \<^verbatim>\<open>{success: true, isCorrect}\<close>. The third operand of the \<^verbatim>\<open>&&\<close>
  is only evaluated after the first two; it throws when \<^verbatim>\<open>currentWord\<close> is \<^verbatim>\<open>undefined\<close>.
\<close>

definition addMessage :: "string \<Rightarrow> message \<Rightarrow> int \<Rightarrow> server \<Rightarrow> (failure + bool) \<times> server" where
  "addMessage roomId message now st =
     (case map_of (rooms st) roomId of
        None \<Rightarrow> (Inl RoomNotFound, st)
      | Some room \<Rightarrow>
          let author = uid (user message) in
          if gameStatus room = Playing \<and> Some author \<noteq> drawingPlayerId room then
            (case currentWord room of
               None \<Rightarrow> (Inl TypeError, st)
             | Some word \<Rightarrow>
                 if trim (toLowerCase (mtext message)) = trim (toLowerCase word) then
                   if author \<notin> set (correctGuessers room) then
                     (Inr True,
                      pushMessage roomId
                        (room\<lparr>correctGuessers := correctGuessers room @ [author],
                              players := awardScore author (players room)\<rparr>)
                        (message\<lparr>mtext := guessedMarker\<rparr>) True now st)
                   else
                     (Inr False,
                      pushMessage roomId room (message\<lparr>mtext := alreadyMarker\<rparr>) False now st)
                 else (Inr False, pushMessage roomId room message False now st))
          else (Inr False, pushMessage roomId room message False now st))"

subsection \<open>createRoom, joinRoom, leaveRoom\<close>

text \<open>
  \<^verbatim>\<open>createRoom(hostId, settings)\<close>; \<open>roomId\<close> is what \<^verbatim>\<open>generateRoomId()\<close> returned and
  \<open>now\<close> the clock. The assignment \<^verbatim>\<open>rooms[roomId] = {...}\<close> replaces a room of the same id.
\<close>

definition createRoom :: "string \<Rightarrow> string \<Rightarrow> game_settings \<Rightarrow> int \<Rightarrow> server \<Rightarrow> string \<times> server" where
  "createRoom roomId host s now st =
     (roomId,
      st\<lparr>rooms := AList.update roomId
        \<lparr>rid = roomId, hostId = host, settings = s, players = [], messages = [],
         currentRound = 0, totalRounds = rounds s, currentWord = Some [],
         drawingPlayerId = None, gameStatus = Waiting, roundTimeLeft = roundDuration s,
         correctGuessers = [], createdAt = Some now\<rparr>
        (rooms st)\<rparr>)"

text \<open>
  The spread \<^verbatim>\<open>{...existing, ...player, isConnected: true}\<close> of a rejoin: every key of the
  client's object replaces the stored value, an absent key keeps it.
\<close>

definition mergePlayer :: "player \<Rightarrow> client_player \<Rightarrow> player" where
  "mergePlayer existing u =
     existing\<lparr>pid := cid u, pname := cname u,
              avatar := (case cavatar u of None \<Rightarrow> avatar existing | Some a \<Rightarrow> a),
              score := (case cscore u of None \<Rightarrow> score existing | Some s \<Rightarrow> s),
              isDrawing := (case cisDrawing u of None \<Rightarrow> isDrawing existing | Some d \<Rightarrow> d),
              isConnected := True\<rparr>"

text \<open>
  The object \<^verbatim>\<open>{...player, score: 0, isDrawing: false, isConnected: true}\<close> of a first join:
  here the three literal keys win over what the client sent.
\<close>

definition newPlayer :: "client_player \<Rightarrow> player" where
  "newPlayer u =
     \<lparr>pid = cid u, pname = cname u,
      avatar = (case cavatar u of None \<Rightarrow> None | Some a \<Rightarrow> a),
      score = 0, isDrawing = False, isConnected = True\<rparr>"

definition joinRoom :: "string \<Rightarrow> client_player \<Rightarrow> server \<Rightarrow> (failure + room) \<times> server" where
  "joinRoom roomId u st =
     (case map_of (rooms st) roomId of
        None \<Rightarrow> (Inl RoomNotFound, st)
      | Some room \<Rightarrow>
          let existingPlayerIndex = findIndex (\<lambda>p. pid p = cid u) (players room) in
          if existingPlayerIndex \<noteq> - 1 then
            let room' = room\<lparr>players := (players room)[nat existingPlayerIndex :=
                          mergePlayer (players room ! nat existingPlayerIndex) u]\<rparr>
            in (Inr room', st\<lparr>rooms := AList.update roomId room' (rooms st)\<rparr>)
          else if int (length (players room)) \<ge> maxPlayers (settings room) then
            (Inl RoomFull, st)
          else
            let room' = room\<lparr>players := players room @ [newPlayer u]\<rparr>
            in (Inr room', st\<lparr>rooms := AList.update roomId room' (rooms st)\<rparr>))"

definition leaveRoom :: "string \<Rightarrow> string \<Rightarrow> server \<Rightarrow> (failure + unit) \<times> server" where
  "leaveRoom roomId playerId st =
     (case map_of (rooms st) roomId of
        None \<Rightarrow> (Inl RoomNotFound, st)
      | Some room \<Rightarrow>
          let playerIndex = findIndex (\<lambda>p. pid p = playerId) (players room) in
          if playerIndex \<noteq> - 1 then
            let room1 = room\<lparr>players := (players room)[nat playerIndex :=
                          (players room ! nat playerIndex)\<lparr>isConnected := False\<rparr>]\<rparr>;
                connectedPlayers = filter isConnected (players room1)
            in if length connectedPlayers = 0 then
                 (Inr (), st\<lparr>rooms := AList.delete roomId (rooms st)\<rparr>)
               else if playerId = hostId room1 then
                 (Inr (), st\<lparr>rooms := AList.update roomId
                            (room1\<lparr>hostId := pid (connectedPlayers ! 0)\<rparr>) (rooms st)\<rparr>)
               else (Inr (), st\<lparr>rooms := AList.update roomId room1 (rooms st)\<rparr>)
          else (Inl PlayerNotFound, st))"

subsection \<open>startGame and the round timer\<close>

text \<open>
  \<^verbatim>\<open>startRoundTimer(roomId)\<close>: unless the room is missing or not playing, \<^verbatim>\<open>setInterval\<close>
  registers one more countdown for the room. Nothing in it calls \<^verbatim>\<open>clearInterval\<close>.
\<close>

definition startRoundTimer :: "string \<Rightarrow> server \<Rightarrow> server" where
  "startRoundTimer roomId st =
     (case map_of (rooms st) roomId of
        None \<Rightarrow> st
      | Some room \<Rightarrow>
          if gameStatus room \<noteq> Playing then st
          else st\<lparr>intervals := intervals st @ [roomId]\<rparr>)"

text \<open>
  \<^verbatim>\<open>startGame(roomId)\<close>; \<open>r1\<close> and \<open>r2\<close> are the two values of \<^verbatim>\<open>Math.random()\<close>, \<open>words\<close>
  is what \<^verbatim>\<open>getWords()\<close> returned. Reading \<^verbatim>\<open>.id\<close> of a missing array element throws
  before anything is written.
\<close>

definition startGame :: "string \<Rightarrow> rat \<Rightarrow> rat \<Rightarrow> string list \<Rightarrow> server \<Rightarrow> (failure + room) \<times> server" where
  "startGame roomId r1 r2 words st =
     (case map_of (rooms st) roomId of
        None \<Rightarrow> (Inl RoomNotFound, st)
      | Some room \<Rightarrow>
          if length (filter isConnected (players room)) < 2 then (Inl InsufficientPlayers, st)
          else
            let connectedPlayers = filter isConnected (players room);
                firstPlayerIndex = randomIndex r1 (length connectedPlayers)
            in (case arrayAt connectedPlayers firstPlayerIndex of
                  None \<Rightarrow> (Inl TypeError, st)
                | Some firstPlayer \<Rightarrow>
                    let firstPlayerId = pid firstPlayer;
                        wordIndex = randomIndex r2 (length words);
                        randomWord = arrayAt words wordIndex;
                        room' = room\<lparr>gameStatus := Playing, currentRound := 1,
                                  currentWord := randomWord,
                                  drawingPlayerId := Some firstPlayerId,
                                  roundTimeLeft := roundDuration (settings room),
                                  correctGuessers := [],
                                  players := map (\<lambda>p. p\<lparr>isDrawing := (pid p = firstPlayerId),
                                                        score := 0\<rparr>) (players room)\<rparr>
                    in (Inr room',
                        startRoundTimer roomId
                          (st\<lparr>rooms := AList.update roomId room' (rooms st)\<rparr>))))"

subsection \<open>endRound and its delayed continuation\<close>

text \<open>
  The synchronous part of \<^verbatim>\<open>endRound(roomId)\<close>: the status change and the \<^verbatim>\<open>setTimeout\<close>
  that schedules the continuation.
\<close>

definition endRound :: "string \<Rightarrow> server \<Rightarrow> (failure + unit) \<times> server" where
  "endRound roomId st =
     (case map_of (rooms st) roomId of
        None \<Rightarrow> (Inl RoomNotFound, st)
      | Some room \<Rightarrow>
          if gameStatus room \<noteq> Playing then (Inl GameNotInProgress, st)
          else (Inr (),
                st\<lparr>rooms := AList.update roomId (room\<lparr>gameStatus := RoundEnd\<rparr>) (rooms st),
                   timeouts := timeouts st @ [roomId]\<rparr>))"

text \<open>
  The callback given to \<^verbatim>\<open>setTimeout\<close>, run 5 seconds later; \<open>r\<close> is its \<^verbatim>\<open>Math.random()\<close>
  and \<open>words\<close> the list \<^verbatim>\<open>endRound\<close> read. Both operands of \<^verbatim>\<open>%\<close> are non-negative, where
  it agrees with \<open>mod\<close>, and the index it gives is inside \<open>connectedPlayers\<close>.
\<close>

definition endRoundLater :: "string \<Rightarrow> rat \<Rightarrow> string list \<Rightarrow> server \<Rightarrow> server" where
  "endRoundLater roomId r words st =
     (case map_of (rooms st) roomId of
        None \<Rightarrow> st
      | Some room \<Rightarrow>
          if currentRound room \<ge> totalRounds room then
            st\<lparr>rooms := AList.update roomId (room\<lparr>gameStatus := GameEnd\<rparr>) (rooms st)\<rparr>
          else
            let connectedPlayers = filter isConnected (players room) in
            if length connectedPlayers < 2 then
              st\<lparr>rooms := AList.update roomId (room\<lparr>gameStatus := Waiting\<rparr>) (rooms st)\<rparr>
            else
              let currentDrawingIndex =
                    findIndex (\<lambda>p. Some (pid p) = drawingPlayerId room) connectedPlayers;
                  nextDrawingIndex = (currentDrawingIndex + 1) mod int (length connectedPlayers);
                  nextDrawingId = pid (connectedPlayers ! nat nextDrawingIndex);
                  wordIndex = randomIndex r (length words);
                  randomWord = arrayAt words wordIndex;
                  room' = room\<lparr>gameStatus := Playing,
                            currentRound := currentRound room + 1,
                            currentWord := randomWord,
                            drawingPlayerId := Some nextDrawingId,
                            roundTimeLeft := roundDuration (settings room),
                            correctGuessers := [],
                            players := map (\<lambda>p. p\<lparr>isDrawing := (pid p = nextDrawingId)\<rparr>)
                                         (players room)\<rparr>
              in startRoundTimer roomId
                   (st\<lparr>rooms := AList.update roomId room' (rooms st)\<rparr>))"

text \<open>The firing of a pending timeout: it runs once and only if it was scheduled.\<close>

definition fireTimeout :: "string \<Rightarrow> rat \<Rightarrow> string list \<Rightarrow> server \<Rightarrow> server" where
  "fireTimeout roomId r words st =
     (if roomId \<in> set (timeouts st)
      then endRoundLater roomId r words (st\<lparr>timeouts := remove1 roomId (timeouts st)\<rparr>)
      else st)"

text \<open>\<^verbatim>\<open>clearInterval(countdownInterval)\<close> inside a countdown for the room.\<close>

definition clearInterval :: "string \<Rightarrow> server \<Rightarrow> server" where
  "clearInterval roomId st = st\<lparr>intervals := remove1 roomId (intervals st)\<rparr>"

text \<open>One run of the callback given to \<^verbatim>\<open>setInterval\<close> by \<^verbatim>\<open>startRoundTimer\<close>.\<close>

definition countdown :: "string \<Rightarrow> server \<Rightarrow> server" where
  "countdown roomId st =
     (case map_of (rooms st) roomId of
        None \<Rightarrow> clearInterval roomId st
      | Some room \<Rightarrow>
          if gameStatus room \<noteq> Playing then clearInterval roomId st
          else
            let room' = room\<lparr>roundTimeLeft := roundTimeLeft room - 1\<rparr>;
                st' = st\<lparr>rooms := AList.update roomId room' (rooms st)\<rparr>
            in if roundTimeLeft room' \<le> 0
               then snd (endRound roomId (clearInterval roomId st'))
               else st')"

definition tick :: "string \<Rightarrow> server \<Rightarrow> server" where
  "tick roomId st = (if roomId \<in> set (intervals st) then countdown roomId st else st)"

subsection \<open>cleanupRooms\<close>

text \<open>
  \<^verbatim>\<open>(now - createdAt) / (1000 * 60 * 60)\<close>, on times in milliseconds. The quotient is exact
  here; rounding it to a double does not change whether it exceeds 6.
\<close>

definition hoursSinceCreation :: "int \<Rightarrow> int \<Rightarrow> rat" where
  "hoursSinceCreation now created = of_int (now - created) / (1000 * 60 * 60)"

text \<open>
  The body of the \<^verbatim>\<open>for (const roomId in rooms)\<close> loop; a key deleted before its turn is
  not visited.
\<close>

definition cleanupRoom :: "int \<Rightarrow> string \<Rightarrow> store \<Rightarrow> store" where
  "cleanupRoom now roomId rs =
     (case map_of rs roomId of
        None \<Rightarrow> rs
      | Some room \<Rightarrow>
          let connectedPlayers = filter isConnected (players room) in
          if length connectedPlayers = 0 then AList.delete roomId rs
          else (case createdAt room of
                  None \<Rightarrow> rs
                | Some created \<Rightarrow>
                    if hoursSinceCreation now created > 6 then AList.delete roomId rs
                    else rs))"

definition cleanupRooms :: "int \<Rightarrow> server \<Rightarrow> server" where
  "cleanupRooms now st = st\<lparr>rooms := fold (cleanupRoom now) (map fst (rooms st)) (rooms st)\<rparr>"

subsection \<open>The server as a transition system\<close>

text \<open>
  Everything that changes the state: the functions behind the socket commands,
  \<^verbatim>\<open>endRound\<close>, a run of a live countdown, the firing of a pending timeout, and a sweep.
  Each carries the values the environment supplies (generated room id, clock, random
  numbers, word list).
\<close>

datatype command =
    CreateRoom string string game_settings int
  | JoinRoom string client_player
  | LeaveRoom string string
  | SendMessage string message int
  | StartGame string rat rat "string list"
  | EndRound string
  | Tick string
  | FireTimeout string rat "string list"
  | Cleanup int

fun exec :: "command \<Rightarrow> server \<Rightarrow> server" where
  "exec (CreateRoom roomId host s now) st = snd (createRoom roomId host s now st)"
| "exec (JoinRoom roomId u) st = snd (joinRoom roomId u st)"
| "exec (LeaveRoom roomId playerId) st = snd (leaveRoom roomId playerId st)"
| "exec (SendMessage roomId m now) st = snd (addMessage roomId m now st)"
| "exec (StartGame roomId r1 r2 words) st = snd (startGame roomId r1 r2 words st)"
| "exec (EndRound roomId) st = snd (endRound roomId st)"
| "exec (Tick roomId) st = tick roomId st"
| "exec (FireTimeout roomId r words) st = fireTimeout roomId r words st"
| "exec (Cleanup now) st = cleanupRooms now st"

definition initial :: server where
  "initial = \<lparr>rooms = [], intervals = [], timeouts = []\<rparr>"

definition run :: "command list \<Rightarrow> server" where
  "run cs = fold exec cs initial"

inductive reachable :: "server \<Rightarrow> bool" where
  reachable_initial: "reachable initial"
| reachable_exec: "reachable st \<Longrightarrow> reachable (exec c st)"

section \<open>Vocabulary of the properties\<close>



text \<open>The ids of the connected players, in join order.\<close>

definition connectedIds :: "room \<Rightarrow> string list" where
  "connectedIds room = map pid (filter isConnected (players room))"

text \<open>
  One complete round end: the countdown runs out (it clears its interval and calls
  \<^verbatim>\<open>endRound\<close>), and the continuation follows, with the random number and the word list
  it uses.
\<close>

definition roundEnd :: "string \<Rightarrow> rat \<times> string list \<Rightarrow> server \<Rightarrow> server" where
  "roundEnd roomId rw st =
     fireTimeout roomId (fst rw) (snd rw) (snd (endRound roomId (clearInterval roomId st)))"


text \<open>What a sweep leaves of a store entry: nothing of an empty or over-age room.\<close>

definition sweep :: "int \<Rightarrow> room option \<Rightarrow> room option" where
  "sweep now x =
     (case x of
        None \<Rightarrow> None
      | Some room \<Rightarrow>
          if filter isConnected (players room) = [] \<or>
             (case createdAt room of
                None \<Rightarrow> False
              | Some created \<Rightarrow> now - created > 6 * 60 * 60 * 1000)
          then None else Some room)"


text \<open>
  What every room of a reachable store satisfies: no two players share an id,
  \<^verbatim>\<open>totalRounds\<close> still is \<^verbatim>\<open>settings.rounds\<close>, and the drawer is not among the correct
  guessers.
\<close>

definition room_ok :: "room \<Rightarrow> bool" where
  "room_ok room \<longleftrightarrow>
     distinct (map pid (players room)) \<and>
     totalRounds room = rounds (settings room) \<and>
     drawingPlayerId room \<notin> Some ` set (correctGuessers room)"

definition store_ok :: "server \<Rightarrow> bool" where
  "store_ok st \<longleftrightarrow> (\<forall>k room. map_of (rooms st) k = Some room \<longrightarrow> room_ok room)"

text \<open>While playing, at most one player is marked as drawing, and that player is connected.\<close>

definition one_connected_drawer :: "room \<Rightarrow> bool" where
  "one_connected_drawer room \<longleftrightarrow>
     (gameStatus room = Playing \<longrightarrow>
        length (filter isDrawing (players room)) \<le> 1 \<and>
        (\<forall>p\<in>set (players room). isDrawing p \<longrightarrow> isConnected p))"

text \<open>
  The two commands that can take that property from a room that is playing: a
  \<^verbatim>\<open>leaveRoom\<close> by a player who is marked as drawing, and a \<^verbatim>\<open>joinRoom\<close> of a player who is
  in the room and not marked as drawing, with a client object that carries
  \<^verbatim>\<open>isDrawing: true\<close>.
\<close>

fun upsets_drawer :: "command \<Rightarrow> server \<Rightarrow> bool" where
  "upsets_drawer (LeaveRoom roomId playerId) st =
     (case map_of (rooms st) roomId of
        None \<Rightarrow> False
      | Some room \<Rightarrow>
          gameStatus room = Playing \<and>
          (\<exists>p\<in>set (players room). pid p = playerId \<and> isDrawing p))"
| "upsets_drawer (JoinRoom roomId u) st =
     (case map_of (rooms st) roomId of
        None \<Rightarrow> False
      | Some room \<Rightarrow>
          gameStatus room = Playing \<and> cisDrawing u = Some True \<and>
          (\<exists>p\<in>set (players room). pid p = cid u \<and> \<not> isDrawing p))"
| "upsets_drawer _ st = False"

text \<open>A run, from a given state, none of whose commands is one of those two when it runs.\<close>

fun steady_run :: "command list \<Rightarrow> server \<Rightarrow> bool" where
  "steady_run [] st = True"
| "steady_run (c # cs) st = (\<not> upsets_drawer c st \<and> steady_run cs (exec c st))"




section \<open>Example runs\<close>

definition demoSettings :: game_settings where
  "demoSettings = \<lparr>maxPlayers = 4, roundDuration = 2, rounds = 5, wordCount = 3, hints = 1\<rparr>"

definition alice :: user where
  "alice = \<lparr>uid = ''alice'', uname = ''Alice'', uavatar = None\<rparr>"

definition bob :: user where
  "bob = \<lparr>uid = ''bob'', uname = ''Bob'', uavatar = None\<rparr>"

definition carol :: user where
  "carol = \<lparr>uid = ''carol'', uname = ''Carol'', uavatar = None\<rparr>"


text \<open>The client object of a user that carries \<^verbatim>\<open>id\<close>, \<^verbatim>\<open>name\<close> and \<^verbatim>\<open>avatar\<close> only.\<close>

definition plain :: "user \<Rightarrow> client_player" where
  "plain u = \<lparr>cid = uid u, cname = uname u, cavatar = Some (uavatar u), cscore = None,
              cisDrawing = None\<rparr>"

definition demoWords :: "string list" where
  "demoWords = [''apple'', ''banana'', ''car'']"

definition guess :: "user \<Rightarrow> message" where
  "guess u = \<lparr>mid = ''m1'', user = u, mtext = ''  BaNana '', isCorrect = False, timestamp = 0\<rparr>"

text \<open>A room with its host alone in it.\<close>

definition alone :: "command list" where
  "alone = [CreateRoom ''100000'' ''alice'' demoSettings 1000, JoinRoom ''100000'' (plain alice)]"

definition aloneRoom :: room where
  "aloneRoom =
     \<lparr>rid = ''100000'', hostId = ''alice'', settings = demoSettings,
      players = [newPlayer (plain alice)], messages = [], currentRound = 0, totalRounds = 5,
      currentWord = Some [], drawingPlayerId = None, gameStatus = Waiting, roundTimeLeft = 2,
      correctGuessers = [], createdAt = Some 1000\<rparr>"

definition aloneState :: server where
  "aloneState = \<lparr>rooms = [(''100000'', aloneRoom)], intervals = [], timeouts = []\<rparr>"

text \<open>Three players; the game started with Alice drawing ``banana''.\<close>

definition started :: "command list" where
  "started = alone @ [JoinRoom ''100000'' (plain bob), JoinRoom ''100000'' (plain carol),
                      StartGame ''100000'' 0 (1 / 2) demoWords]"

definition startedRoom :: room where
  "startedRoom =
     aloneRoom\<lparr>players := [(newPlayer (plain alice))\<lparr>isDrawing := True\<rparr>, newPlayer (plain bob), newPlayer (plain carol)],
               currentRound := 1, currentWord := Some ''banana'',
               drawingPlayerId := Some ''alice'', gameStatus := Playing\<rparr>"

definition startedState :: server where
  "startedState = \<lparr>rooms = [(''100000'', startedRoom)], intervals = [''100000''], timeouts = []\<rparr>"

text \<open>Bob has guessed the word.\<close>

definition guessedRoom :: room where
  "guessedRoom =
     startedRoom\<lparr>players := [(newPlayer (plain alice))\<lparr>isDrawing := True\<rparr>,
                              (newPlayer (plain bob))\<lparr>score := 100\<rparr>, newPlayer (plain carol)],
                 messages := [(guess bob)\<lparr>mtext := guessedMarker, isCorrect := True,
                                          timestamp := 5000\<rparr>],
                 correctGuessers := [''bob'']\<rparr>"

definition guessedState :: server where
  "guessedState = \<lparr>rooms = [(''100000'', guessedRoom)], intervals = [''100000''], timeouts = []\<rparr>"

text \<open>The countdown of the first round has run out.\<close>

definition roundOverRoom :: room where
  "roundOverRoom = startedRoom\<lparr>gameStatus := RoundEnd, roundTimeLeft := 0\<rparr>"

definition roundOverState :: server where
  "roundOverState = \<lparr>rooms = [(''100000'', roundOverRoom)], intervals = [], timeouts = [''100000'']\<rparr>"

text \<open>Alice, who is drawing, has left.\<close>

definition drawerGoneRoom :: room where
  "drawerGoneRoom =
     startedRoom\<lparr>hostId := ''bob'',
                 players := [(newPlayer (plain alice))\<lparr>isDrawing := True, isConnected := False\<rparr>,
                             newPlayer (plain bob), newPlayer (plain carol)]\<rparr>"

definition drawerGoneState :: server where
  "drawerGoneState = \<lparr>rooms = [(''100000'', drawerGoneRoom)], intervals = [''100000''], timeouts = []\<rparr>"

text \<open>Bob has joined again with a client object that says he is drawing.\<close>

definition forgedRoom :: room where
  "forgedRoom =
     startedRoom\<lparr>players := [(newPlayer (plain alice))\<lparr>isDrawing := True\<rparr>,
                             (newPlayer (plain bob))\<lparr>isDrawing := True\<rparr>,
                             newPlayer (plain carol)]\<rparr>"

text \<open>Alice has left and the countdown has run out.\<close>

definition drawerGoneOverRoom :: room where
  "drawerGoneOverRoom = drawerGoneRoom\<lparr>gameStatus := RoundEnd, roundTimeLeft := 0\<rparr>"

definition drawerGoneOverState :: server where
  "drawerGoneOverState =
     \<lparr>rooms = [(''100000'', drawerGoneOverRoom)], intervals = [], timeouts = [''100000'']\<rparr>"

text \<open>
  Three rooms for a sweep at time 21601001: one older than six hours with a connected
  player, one young without players, one young with a connected player.
\<close>

definition threeRooms :: "command list" where
  "threeRooms = alone @ [CreateRoom ''200000'' ''bob'' demoSettings 20000000,
                         CreateRoom ''300000'' ''carol'' demoSettings 20000000,
                         JoinRoom ''300000'' (plain carol)]"

definition carolRoom :: room where
  "carolRoom = aloneRoom\<lparr>rid := ''300000'', hostId := ''carol'', players := [newPlayer (plain carol)],
                         createdAt := Some 20000000\<rparr>"

text \<open>
  The same three players in a game of three rounds, and that game after three round ends.
\<close>

definition shortGame :: "command list" where
  "shortGame =
     [CreateRoom ''100000'' ''alice'' (demoSettings\<lparr>rounds := 3\<rparr>) 1000,
      JoinRoom ''100000'' (plain alice), JoinRoom ''100000'' (plain bob), JoinRoom ''100000'' (plain carol),
      StartGame ''100000'' 0 (1 / 2) demoWords]"

definition shortRoom :: room where
  "shortRoom = startedRoom\<lparr>settings := demoSettings\<lparr>rounds := 3\<rparr>, totalRounds := 3\<rparr>"

definition shortState :: server where
  "shortState = \<lparr>rooms = [(''100000'', shortRoom)], intervals = [''100000''], timeouts = []\<rparr>"

definition shortOverRoom :: room where
  "shortOverRoom =
     shortRoom\<lparr>players := [newPlayer (plain alice), newPlayer (plain bob), (newPlayer (plain carol))\<lparr>isDrawing := True\<rparr>],
               currentRound := 3, currentWord := Some ''banana'',
               drawingPlayerId := Some ''carol'', gameStatus := GameEnd\<rparr>"

section \<open>Facts about the built-ins\<close>

lemma findIndex_ge: "- 1 \<le> findIndex P xs"
  by (induction xs) (auto simp: Let_def)

lemma findIndex_none: "findIndex P xs = - 1 \<longleftrightarrow> (\<forall>x\<in>set xs. \<not> P x)"
proof (induction xs)
  case Nil
  show ?case by simp
next
  case (Cons x xs)
  have "- 1 \<le> findIndex P xs" by (rule findIndex_ge)
  with Cons show ?case by (auto simp: Let_def)
qed

lemma findIndex_Cons_nat:
  "\<not> P x \<Longrightarrow> findIndex P xs \<noteq> - 1 \<Longrightarrow> nat (findIndex P (x # xs)) = Suc (nat (findIndex P xs))"
  using findIndex_ge [of P xs] by (simp add: Let_def nat_add_distrib)

lemma findIndex_less: "findIndex P xs \<noteq> - 1 \<Longrightarrow> nat (findIndex P xs) < length xs"
proof (induction xs)
  case Nil
  then show ?case by simp
next
  case (Cons x xs)
  show ?case
  proof (cases "P x")
    case True
    then show ?thesis by simp
  next
    case False
    with Cons.prems have ne: "findIndex P xs \<noteq> - 1" by (auto simp: Let_def split: if_splits)
    with Cons.IH False show ?thesis by (simp add: findIndex_Cons_nat del: findIndex.simps)
  qed
qed

lemma findIndex_sat: "findIndex P xs \<noteq> - 1 \<Longrightarrow> P (xs ! nat (findIndex P xs))"
proof (induction xs)
  case Nil
  then show ?case by simp
next
  case (Cons x xs)
  show ?case
  proof (cases "P x")
    case True
    then show ?thesis by simp
  next
    case False
    with Cons.prems have ne: "findIndex P xs \<noteq> - 1" by (auto simp: Let_def split: if_splits)
    with Cons.IH False show ?thesis by (simp add: findIndex_Cons_nat del: findIndex.simps)
  qed
qed

section \<open>Scoring\<close>

lemma awardScore_Nil: "awardScore a [] = []"
  by (simp add: awardScore_def)

lemma awardScore_Cons:
  "awardScore a (p # ps) =
     (if pid p = a then p\<lparr>score := score p + 100\<rparr> # ps else p # awardScore a ps)"
proof (cases "pid p = a")
  case True
  then show ?thesis by (simp add: awardScore_def)
next
  case False
  show ?thesis
  proof (cases "findIndex (\<lambda>p. pid p = a) ps = - 1")
    case True
    with False show ?thesis by (simp add: awardScore_def Let_def)
  next
    case ne: False
    have "nat (findIndex (\<lambda>p. pid p = a) (p # ps)) = Suc (nat (findIndex (\<lambda>p. pid p = a) ps))"
      using False ne by (rule findIndex_Cons_nat)
    moreover have "findIndex (\<lambda>p. pid p = a) (p # ps) \<noteq> - 1"
      using False ne findIndex_ge [of "\<lambda>p. pid p = a" ps] by (simp add: Let_def)
    ultimately show ?thesis using False ne
      by (simp add: awardScore_def Let_def del: findIndex.simps)
  qed
qed


lemma map_pid_awardScore: "map pid (awardScore a ps) = map pid ps"
  by (induction ps) (auto simp: awardScore_Nil awardScore_Cons)

lemma map_isDrawing_awardScore: "map isDrawing (awardScore a ps) = map isDrawing ps"
  by (induction ps) (auto simp: awardScore_Nil awardScore_Cons)


lemma rooms_pushMessage:
  "map_of (rooms (pushMessage roomId room m c now st)) roomId =
     Some (room\<lparr>messages := messages room @ [m\<lparr>isCorrect := c, timestamp := now\<rparr>]\<rparr>)"
  by (simp add: pushMessage_def update_conv')

section \<open>The invariant of reachable stores\<close>

lemma store_okD: "store_ok st \<Longrightarrow> map_of (rooms st) k = Some room \<Longrightarrow> room_ok room"
  by (simp add: store_ok_def)

lemma store_ok_update:
  "store_ok st \<Longrightarrow> room_ok room \<Longrightarrow> store_ok (st\<lparr>rooms := AList.update k room (rooms st)\<rparr>)"
  by (simp add: store_ok_def update_conv')

lemma store_ok_delete: "store_ok st \<Longrightarrow> store_ok (st\<lparr>rooms := AList.delete k (rooms st)\<rparr>)"
  by (simp add: store_ok_def delete_conv')

lemma store_ok_intervals [simp]: "store_ok (st\<lparr>intervals := x\<rparr>) = store_ok st"
  by (simp add: store_ok_def)

lemma store_ok_timeouts [simp]: "store_ok (st\<lparr>timeouts := x\<rparr>) = store_ok st"
  by (simp add: store_ok_def)

lemma length_filter_cong_map:
  "map f xs = map f ys \<Longrightarrow> length (filter f xs) = length (filter f ys)"
proof (induction xs arbitrary: ys)
  case Nil
  then show ?case by simp
next
  case (Cons x xs)
  then obtain y ys' where "ys = y # ys'" by (cases ys) auto
  with Cons show ?case by auto
qed

lemma map_update_same: "i < length xs \<Longrightarrow> f y = f (xs ! i) \<Longrightarrow> map f (xs[i := y]) = map f xs"
  by (simp add: map_update list_update_same_conv)

lemma room_ok_players:
  "room_ok room \<Longrightarrow> map pid ps = map pid (players room) \<Longrightarrow> room_ok (room\<lparr>players := ps\<rparr>)"
  by (simp add: room_ok_def)

lemma length_filter_distinct_key:
  "distinct (map f xs) \<Longrightarrow> length (filter (\<lambda>x. f x = k) xs) \<le> 1"
  by (induction xs) (auto simp: filter_empty_conv image_iff)

lemma filter_isDrawing_assign:
  "filter isDrawing (map (\<lambda>p. p\<lparr>isDrawing := (pid p = d)\<rparr>) ps) =
     map (\<lambda>p. p\<lparr>isDrawing := True\<rparr>) (filter (\<lambda>p. pid p = d) ps)"
  by (induction ps) auto

lemma filter_isDrawing_assign_score:
  "filter isDrawing (map (\<lambda>p. p\<lparr>isDrawing := (pid p = d), score := 0\<rparr>) ps) =
     map (\<lambda>p. p\<lparr>isDrawing := True, score := 0\<rparr>) (filter (\<lambda>p. pid p = d) ps)"
  by (induction ps) auto

lemma store_ok_startRoundTimer [simp]: "store_ok (startRoundTimer roomId st) = store_ok st"
  by (simp add: startRoundTimer_def split: option.splits)

lemma store_ok_clearInterval [simp]: "store_ok (clearInterval roomId st) = store_ok st"
  by (simp add: clearInterval_def)

lemma rooms_clearInterval [simp]: "rooms (clearInterval roomId st) = rooms st"
  by (simp add: clearInterval_def)

lemma store_ok_createRoom: "store_ok st \<Longrightarrow> store_ok (snd (createRoom roomId host s now st))"
  by (simp add: createRoom_def store_ok_update room_ok_def)

lemma store_ok_joinRoom:
  assumes "store_ok st"
  shows "store_ok (snd (joinRoom roomId u st))"
proof (cases "map_of (rooms st) roomId")
  case None
  with assms show ?thesis by (simp add: joinRoom_def)
next
  case (Some room)
  with assms have ok: "room_ok room" by (rule store_okD)
  let ?i = "findIndex (\<lambda>p. pid p = cid u) (players room)"
  show ?thesis
  proof (cases "?i = - 1")
    case True
    then have "cid u \<notin> pid ` set (players room)" by (auto simp: findIndex_none)
    with ok have "room_ok (room\<lparr>players := players room @ [newPlayer u]\<rparr>)"
      by (simp add: room_ok_def newPlayer_def)
    with assms Some True show ?thesis by (simp add: joinRoom_def Let_def store_ok_update)
  next
    case False
    then have lt: "nat ?i < length (players room)" and sat: "pid (players room ! nat ?i) = cid u"
      using findIndex_less [of "\<lambda>p. pid p = cid u" "players room"]
        findIndex_sat [of "\<lambda>p. pid p = cid u" "players room"] by auto
    have "room_ok (room\<lparr>players := (players room)[nat ?i := mergePlayer (players room ! nat ?i) u]\<rparr>)"
      using ok lt sat by (intro room_ok_players map_update_same) (simp_all add: mergePlayer_def)
    with assms Some False show ?thesis by (simp add: joinRoom_def Let_def store_ok_update)
  qed
qed

lemma room_ok_hostId [simp]: "room_ok (room\<lparr>hostId := h\<rparr>) = room_ok room"
  by (simp add: room_ok_def)

lemma room_ok_gameStatus [simp]: "room_ok (room\<lparr>gameStatus := g\<rparr>) = room_ok room"
  by (simp add: room_ok_def)

lemma room_ok_roundTimeLeft [simp]: "room_ok (room\<lparr>roundTimeLeft := t\<rparr>) = room_ok room"
  by (simp add: room_ok_def)

lemma room_ok_messages [simp]: "room_ok (room\<lparr>messages := ms\<rparr>) = room_ok room"
  by (simp add: room_ok_def)

lemma store_ok_leaveRoom:
  assumes "store_ok st"
  shows "store_ok (snd (leaveRoom roomId playerId st))"
proof (cases "map_of (rooms st) roomId")
  case None
  with assms show ?thesis by (simp add: leaveRoom_def)
next
  case (Some room)
  with assms have ok: "room_ok room" by (rule store_okD)
  let ?i = "findIndex (\<lambda>p. pid p = playerId) (players room)"
  show ?thesis
  proof (cases "?i = - 1")
    case True
    with assms Some show ?thesis by (simp add: leaveRoom_def)
  next
    case False
    then have lt: "nat ?i < length (players room)"
      using findIndex_less [of "\<lambda>p. pid p = playerId" "players room"] by auto
    let ?room1 = "room\<lparr>players := (players room)[nat ?i := (players room ! nat ?i)\<lparr>isConnected := False\<rparr>]\<rparr>"
    have r1: "room_ok ?room1"
      using ok lt by (intro room_ok_players map_update_same) simp_all
    then have r2: "room_ok (?room1\<lparr>hostId := h\<rparr>)" for h by simp
    have "store_ok (st\<lparr>rooms := AList.update roomId ?room1 (rooms st)\<rparr>)"
      and "store_ok (st\<lparr>rooms := AList.update roomId (?room1\<lparr>hostId := h\<rparr>) (rooms st)\<rparr>)" for h
      using assms r1 r2 by (blast intro: store_ok_update)+
    with assms Some False show ?thesis
      by (auto simp add: leaveRoom_def Let_def store_ok_delete simp del: room_ok_hostId)
  qed
qed

lemma store_ok_pushMessage:
  "store_ok st \<Longrightarrow> room_ok room \<Longrightarrow> store_ok (pushMessage roomId room m c now st)"
  by (simp add: pushMessage_def store_ok_update)

lemma store_ok_addMessage:
  assumes "store_ok st"
  shows "store_ok (snd (addMessage roomId m now st))"
proof (cases "map_of (rooms st) roomId")
  case None
  with assms show ?thesis by (simp add: addMessage_def)
next
  case (Some room)
  with assms have ok: "room_ok room" by (rule store_okD)
  have "room_ok (room\<lparr>players := awardScore (uid (user m)) (players room)\<rparr>)"
    using ok by (intro room_ok_players map_pid_awardScore)
  then have "Some (uid (user m)) \<noteq> drawingPlayerId room \<Longrightarrow>
    room_ok (room\<lparr>correctGuessers := correctGuessers room @ [uid (user m)],
                  players := awardScore (uid (user m)) (players room)\<rparr>)"
    by (auto simp: room_ok_def)
  with assms Some ok show ?thesis
    by (auto simp: addMessage_def Let_def store_ok_pushMessage split: option.splits)
qed

lemma room_ok_new_drawer:
  assumes "room_ok room"
  shows "room_ok (room\<lparr>gameStatus := g, currentRound := n, currentWord := w,
           drawingPlayerId := Some d, roundTimeLeft := t, correctGuessers := [],
           players := map (\<lambda>p. p\<lparr>isDrawing := (pid p = d)\<rparr>) (players room)\<rparr>)"
    and "room_ok (room\<lparr>gameStatus := g, currentRound := n, currentWord := w,
           drawingPlayerId := Some d, roundTimeLeft := t, correctGuessers := [],
           players := map (\<lambda>p. p\<lparr>isDrawing := (pid p = d), score := 0\<rparr>) (players room)\<rparr>)"
  using assms by (simp_all add: room_ok_def comp_def)

lemma store_ok_startGame:
  assumes "store_ok st"
  shows "store_ok (snd (startGame roomId r1 r2 words st))"
proof (cases "map_of (rooms st) roomId")
  case None
  with assms show ?thesis by (simp add: startGame_def)
next
  case (Some room)
  with assms have ok: "room_ok room" by (rule store_okD)
  with assms Some show ?thesis
    by (auto simp: startGame_def Let_def store_ok_update room_ok_new_drawer split: option.splits)
qed

lemma store_ok_endRound:
  assumes "store_ok st"
  shows "store_ok (snd (endRound roomId st))"
proof (cases "map_of (rooms st) roomId")
  case None
  with assms show ?thesis by (simp add: endRound_def)
next
  case (Some room)
  with assms have ok: "room_ok room" by (rule store_okD)
  with assms Some show ?thesis by (simp add: endRound_def store_ok_update)
qed

lemma store_ok_endRoundLater:
  assumes "store_ok st"
  shows "store_ok (endRoundLater roomId r words st)"
proof (cases "map_of (rooms st) roomId")
  case None
  with assms show ?thesis by (simp add: endRoundLater_def)
next
  case (Some room)
  with assms have ok: "room_ok room" by (rule store_okD)
  with assms Some show ?thesis
    by (auto simp: endRoundLater_def Let_def store_ok_update room_ok_new_drawer)
qed

lemma store_ok_fireTimeout: "store_ok st \<Longrightarrow> store_ok (fireTimeout roomId r words st)"
  by (simp add: fireTimeout_def store_ok_endRoundLater)

lemma store_ok_tick:
  assumes "store_ok st"
  shows "store_ok (tick roomId st)"
proof (cases "map_of (rooms st) roomId")
  case None
  with assms show ?thesis by (simp add: tick_def countdown_def)
next
  case (Some room)
  with assms have ok: "room_ok room" by (rule store_okD)
  with assms Some show ?thesis
    by (auto simp: tick_def countdown_def Let_def store_ok_update store_ok_endRound)
qed

subsection \<open>The sweep\<close>

lemma hoursSinceCreation_gt:
  "hoursSinceCreation now created > 6 \<longleftrightarrow> now - created > 6 * 60 * 60 * 1000"
proof -
  have "hoursSinceCreation now created > 6 \<longleftrightarrow>
      (of_int (6 * 60 * 60 * 1000) :: rat) < of_int (now - created)"
    by (simp add: hoursSinceCreation_def pos_less_divide_eq)
  also have "\<dots> \<longleftrightarrow> 6 * 60 * 60 * 1000 < now - created"
    by (simp only: of_int_less_iff)
  finally show ?thesis .
qed

lemma map_of_cleanupRoom:
  "map_of (cleanupRoom now k rs) k' = (if k' = k then sweep now (map_of rs k) else map_of rs k')"
  by (auto simp: cleanupRoom_def sweep_def Let_def delete_conv' hoursSinceCreation_gt
      split: option.splits)

lemma sweep_idem: "sweep now (sweep now x) = sweep now x"
  by (auto simp: sweep_def split: option.splits)

lemma map_of_fold_cleanupRoom:
  "map_of (fold (cleanupRoom now) ks rs) k =
     (if k \<in> set ks then sweep now (map_of rs k) else map_of rs k)"
proof (induction ks arbitrary: rs)
  case Nil
  show ?case by simp
next
  case (Cons a ks)
  show ?case by (simp add: Cons.IH map_of_cleanupRoom sweep_idem)
qed

lemma map_of_cleanupRooms:
  "map_of (rooms (cleanupRooms now st)) k = sweep now (map_of (rooms st) k)"
proof (cases "k \<in> set (map fst (rooms st))")
  case True
  then show ?thesis by (simp add: cleanupRooms_def map_of_fold_cleanupRoom)
next
  case False
  then have "map_of (rooms st) k = None" by (simp add: map_of_eq_None_iff)
  with False show ?thesis by (simp add: cleanupRooms_def map_of_fold_cleanupRoom sweep_def)
qed

lemma map_of_cleanupRooms_Some:
  "map_of (rooms (cleanupRooms now st)) k = Some room \<Longrightarrow> map_of (rooms st) k = Some room"
  unfolding map_of_cleanupRooms by (auto simp: sweep_def split: option.splits if_splits)

lemma store_ok_cleanupRooms: "store_ok st \<Longrightarrow> store_ok (cleanupRooms now st)"
  unfolding store_ok_def by (blast dest: map_of_cleanupRooms_Some)

subsection \<open>Every command preserves the invariant\<close>

lemma store_ok_exec: "store_ok st \<Longrightarrow> store_ok (exec c st)"
  by (cases c)
    (simp_all add: store_ok_createRoom store_ok_joinRoom store_ok_leaveRoom store_ok_addMessage
      store_ok_startGame store_ok_endRound store_ok_tick store_ok_fireTimeout
      store_ok_cleanupRooms)

lemma reachable_store_ok: "reachable st \<Longrightarrow> store_ok st"
proof (induction rule: reachable.induct)
  case reachable_initial
  show ?case by (simp add: store_ok_def initial_def)
next
  case (reachable_exec st c)
  then show ?case by (simp add: store_ok_exec)
qed

lemma reachable_run: "reachable (run cs)"
proof -
  have "reachable st \<Longrightarrow> reachable (fold exec cs st)" for st
    by (induction cs arbitrary: st) (auto intro: reachable_exec)
  then show ?thesis unfolding run_def using reachable_initial by blast
qed

section \<open>Timers and rotation\<close>

lemma rooms_startRoundTimer [simp]: "rooms (startRoundTimer roomId st) = rooms st"
  by (simp add: startRoundTimer_def split: option.splits)

lemma timeouts_startRoundTimer [simp]: "timeouts (startRoundTimer roomId st) = timeouts st"
  by (simp add: startRoundTimer_def split: option.splits)

lemma intervals_startRoundTimer:
  "map_of (rooms st) roomId = Some room \<Longrightarrow> gameStatus room = Playing \<Longrightarrow>
   intervals (startRoundTimer roomId st) = intervals st @ [roomId]"
  by (simp add: startRoundTimer_def)

lemma findIndex_distinct:
  "distinct (map f xs) \<Longrightarrow> i < length xs \<Longrightarrow> findIndex (\<lambda>x. f x = f (xs ! i)) xs = int i"
proof (induction xs arbitrary: i)
  case Nil
  then show ?case by simp
next
  case (Cons x xs)
  show ?case
  proof (cases i)
    case 0
    then show ?thesis by simp
  next
    case (Suc j)
    with Cons.prems have j: "j < length xs" and d: "distinct (map f xs)" and nx: "f x \<notin> f ` set xs"
      by auto
    from j nx have "f x \<noteq> f (xs ! j)" by (metis image_eqI nth_mem)
    moreover have "findIndex (\<lambda>x. f x = f (xs ! j)) xs = int j" using d j by (rule Cons.IH)
    ultimately show ?thesis using Suc by (simp add: Let_def)
  qed
qed

lemma filter_isConnected_assign:
  "filter isConnected (map (\<lambda>p. p\<lparr>isDrawing := g p\<rparr>) ps) =
     map (\<lambda>p. p\<lparr>isDrawing := g p\<rparr>) (filter isConnected ps)"
  by (induction ps) auto

lemma connectedIds_assign:
  "connectedIds (room\<lparr>players := map (\<lambda>p. p\<lparr>isDrawing := g p\<rparr>) (players room)\<rparr>) = connectedIds room"
  by (simp add: connectedIds_def filter_isConnected_assign comp_def)

lemma roundEnd_step:
  assumes look: "map_of (rooms st) roomId = Some room"
    and play: "gameStatus room = Playing"
    and dist: "distinct (connectedIds room)"
    and i: "i < length (connectedIds room)"
    and drawer: "drawingPlayerId room = Some (connectedIds room ! i)"
    and two: "2 \<le> length (connectedIds room)"
    and more: "currentRound room < totalRounds room"
  shows "\<exists>room'. map_of (rooms (roundEnd roomId rw st)) roomId = Some room' \<and>
           gameStatus room' = Playing \<and>
           connectedIds room' = connectedIds room \<and>
           drawingPlayerId room' = Some (connectedIds room ! ((i + 1) mod length (connectedIds room))) \<and>
           currentRound room' = currentRound room + 1 \<and>
           totalRounds room' = totalRounds room"
proof -
  let ?cs = "filter isConnected (players room)"
  let ?n = "length ?cs"
  have n: "length (connectedIds room) = ?n" by (simp add: connectedIds_def)
  have ilt: "i < ?n" using i n by simp
  have idi: "connectedIds room ! i = pid (?cs ! i)" using ilt by (simp add: connectedIds_def)
  have "findIndex (\<lambda>p. pid p = pid (?cs ! i)) ?cs = int i"
    using dist ilt unfolding connectedIds_def by (rule findIndex_distinct)
  then have fi: "findIndex (\<lambda>p. Some (pid p) = drawingPlayerId room) ?cs = int i"
    by (simp add: drawer idi)
  have nxt: "nat ((int i + 1) mod int ?n) = (i + 1) mod ?n"
    by (metis nat_int int_ops(2) of_nat_add of_nat_mod)
  have lt: "(i + 1) mod ?n < ?n" using ilt by (intro mod_less_divisor) arith
  have nid: "pid (?cs ! ((i + 1) mod ?n)) = connectedIds room ! ((i + 1) mod ?n)"
    using lt by (simp add: connectedIds_def)
  let ?st0 = "snd (endRound roomId (clearInterval roomId st))"
  let ?st1 = "?st0\<lparr>timeouts := remove1 roomId (timeouts ?st0)\<rparr>"
  have e: "map_of (rooms ?st1) roomId = Some (room\<lparr>gameStatus := RoundEnd\<rparr>)"
    and t: "roomId \<in> set (timeouts ?st0)"
    using look play by (simp_all add: endRound_def update_conv')
  have "roundEnd roomId rw st = endRoundLater roomId (fst rw) (snd rw) ?st1"
    using t by (simp add: roundEnd_def fireTimeout_def)
  moreover have "\<exists>room'. map_of (rooms (endRoundLater roomId (fst rw) (snd rw) ?st1)) roomId = Some room' \<and>
           gameStatus room' = Playing \<and>
           connectedIds room' = connectedIds room \<and>
           drawingPlayerId room' = Some (connectedIds room ! ((i + 1) mod length (connectedIds room))) \<and>
           currentRound room' = currentRound room + 1 \<and>
           totalRounds room' = totalRounds room"
    using e more two n fi nxt nid
    by (simp add: endRoundLater_def Let_def update_conv' connectedIds_def
        filter_isConnected_assign comp_def)
  ultimately show ?thesis by simp
qed

lemma roundEnd_steps:
  assumes "map_of (rooms st) roomId = Some room"
    and "gameStatus room = Playing"
    and "distinct (connectedIds room)"
    and "i < length (connectedIds room)"
    and "drawingPlayerId room = Some (connectedIds room ! i)"
    and "2 \<le> length (connectedIds room)"
    and "currentRound room + int (length rws) \<le> totalRounds room"
  shows "\<exists>room'. map_of (rooms (fold (roundEnd roomId) rws st)) roomId = Some room' \<and>
           gameStatus room' = Playing \<and>
           connectedIds room' = connectedIds room \<and>
           drawingPlayerId room' =
             Some (connectedIds room ! ((i + length rws) mod length (connectedIds room)))"
  using assms
proof (induction rws arbitrary: st room i)
  case Nil
  then show ?case by simp
next
  case (Cons rw rws)
  let ?n = "length (connectedIds room)"
  from Cons.prems have more: "currentRound room < totalRounds room" by simp
  obtain room1 where r1: "map_of (rooms (roundEnd roomId rw st)) roomId = Some room1"
    "gameStatus room1 = Playing" "connectedIds room1 = connectedIds room"
    "drawingPlayerId room1 = Some (connectedIds room ! ((i + 1) mod ?n))"
    "currentRound room1 = currentRound room + 1" "totalRounds room1 = totalRounds room"
    using roundEnd_step [OF Cons.prems(1-6) more, of rw] by blast
  have lt: "(i + 1) mod ?n < ?n" using Cons.prems(4) by (intro mod_less_divisor) arith
  have "\<exists>room'. map_of (rooms (fold (roundEnd roomId) rws (roundEnd roomId rw st))) roomId = Some room' \<and>
           gameStatus room' = Playing \<and>
           connectedIds room' = connectedIds room1 \<and>
           drawingPlayerId room' =
             Some (connectedIds room1 ! (((i + 1) mod ?n + length rws) mod length (connectedIds room1)))"
    using r1 Cons.prems lt by (intro Cons.IH) simp_all
  moreover have "((i + 1) mod ?n + length rws) mod ?n = (i + length (rw # rws)) mod ?n"
    by (simp add: mod_add_left_eq)
  ultimately show ?case using r1(3) by simp
qed

section \<open>One connected drawer, unless a command upsets it\<close>

lemma dc_update:
  assumes "map_of (rooms (st\<lparr>rooms := AList.update roomId new (rooms st)\<rparr>)) k = Some room'"
    and "\<forall>room. map_of (rooms st) k = Some room \<longrightarrow> one_connected_drawer room"
    and "one_connected_drawer new"
  shows "one_connected_drawer room'"
  using assms by (cases "k = roomId") (auto simp: update_conv')

lemma length_filter_update_le:
  "i < length xs \<Longrightarrow> (P q \<longrightarrow> P (xs ! i)) \<Longrightarrow>
   length (filter P (xs[i := q])) \<le> length (filter P xs)"
  by (induction xs arbitrary: i) (auto split: nat.splits)

lemma dc_list_update:
  assumes dc: "one_connected_drawer room"
    and i: "i < length (players room)"
    and q: "gameStatus room = Playing \<Longrightarrow>
            isDrawing q \<longrightarrow> isDrawing (players room ! i) \<and> isConnected q"
  shows "one_connected_drawer (room\<lparr>players := (players room)[i := q]\<rparr>)"
proof (cases "gameStatus room = Playing")
  case False
  then show ?thesis by (simp add: one_connected_drawer_def)
next
  case True
  with q have q1: "isDrawing q \<longrightarrow> isDrawing (players room ! i)"
    and q2: "isDrawing q \<longrightarrow> isConnected q" by auto
  have "length (filter isDrawing ((players room)[i := q]))
      \<le> length (filter isDrawing (players room))"
    using i q1 by (rule length_filter_update_le)
  moreover have "\<forall>p\<in>set ((players room)[i := q]). isDrawing p \<longrightarrow> isConnected p"
    using dc True q2 set_update_subset_insert [of "players room" i q]
    by (auto simp: one_connected_drawer_def)
  ultimately show ?thesis using dc True by (simp add: one_connected_drawer_def)
qed

lemma dc_hostId [simp]: "one_connected_drawer (room\<lparr>hostId := h\<rparr>) = one_connected_drawer room"
  by (simp add: one_connected_drawer_def)

lemma dc_messages [simp]: "one_connected_drawer (room\<lparr>messages := h\<rparr>) = one_connected_drawer room"
  by (simp add: one_connected_drawer_def)

lemma dc_correctGuessers [simp]: "one_connected_drawer (room\<lparr>correctGuessers := h\<rparr>) = one_connected_drawer room"
  by (simp add: one_connected_drawer_def)

lemma dc_roundTimeLeft [simp]: "one_connected_drawer (room\<lparr>roundTimeLeft := h\<rparr>) = one_connected_drawer room"
  by (simp add: one_connected_drawer_def)

lemma dc_not_playing: "g \<noteq> Playing \<Longrightarrow> one_connected_drawer (room\<lparr>gameStatus := g\<rparr>)"
  by (simp add: one_connected_drawer_def)

lemma awardScore_flags:
  "(\<forall>p\<in>set (awardScore a ps). isDrawing p \<longrightarrow> isConnected p) \<longleftrightarrow>
   (\<forall>p\<in>set ps. isDrawing p \<longrightarrow> isConnected p)"
  by (induction ps) (auto simp: awardScore_Nil awardScore_Cons)

lemma dc_awardScore:
  "one_connected_drawer (room\<lparr>players := awardScore a (players room)\<rparr>) = one_connected_drawer room"
  using length_filter_cong_map [OF map_isDrawing_awardScore, of a "players room"]
  by (simp add: one_connected_drawer_def awardScore_flags)

lemma dc_new_drawer:
  assumes "distinct (map pid (players room))"
    and "q \<in> set (filter isConnected (players room))"
  shows "one_connected_drawer (room\<lparr>gameStatus := g, currentRound := n, currentWord := w,
           drawingPlayerId := Some (pid q), roundTimeLeft := t, correctGuessers := [],
           players := map (\<lambda>p. p\<lparr>isDrawing := (pid p = pid q)\<rparr>) (players room)\<rparr>)"
    and "one_connected_drawer (room\<lparr>gameStatus := g, currentRound := n, currentWord := w,
           drawingPlayerId := Some (pid q), roundTimeLeft := t, correctGuessers := [],
           players := map (\<lambda>p. p\<lparr>isDrawing := (pid p = pid q), score := 0\<rparr>) (players room)\<rparr>)"
proof -
  have inj: "inj_on pid (set (players room))" using assms(1) by (simp add: distinct_map)
  have q: "q \<in> set (players room)" "isConnected q" using assms(2) by auto
  have "p \<in> set (players room) \<Longrightarrow> pid p = pid q \<Longrightarrow> isConnected p" for p
    using inj q by (auto dest: inj_onD)
  moreover have "length (filter (\<lambda>p. pid p = pid q) (players room)) \<le> 1"
    using assms(1) by (rule length_filter_distinct_key)
  ultimately show "one_connected_drawer (room\<lparr>gameStatus := g, currentRound := n, currentWord := w,
           drawingPlayerId := Some (pid q), roundTimeLeft := t, correctGuessers := [],
           players := map (\<lambda>p. p\<lparr>isDrawing := (pid p = pid q)\<rparr>) (players room)\<rparr>)"
    and "one_connected_drawer (room\<lparr>gameStatus := g, currentRound := n, currentWord := w,
           drawingPlayerId := Some (pid q), roundTimeLeft := t, correctGuessers := [],
           players := map (\<lambda>p. p\<lparr>isDrawing := (pid p = pid q), score := 0\<rparr>) (players room)\<rparr>)"
    by (auto simp: one_connected_drawer_def filter_isDrawing_assign
        filter_isDrawing_assign_score)
qed

lemma dc_createRoom:
  assumes "map_of (rooms (snd (createRoom roomId host s now st))) k = Some room'"
    and "\<forall>room. map_of (rooms st) k = Some room \<longrightarrow> one_connected_drawer room"
  shows "one_connected_drawer room'"
  using assms by (cases "k = roomId") (auto simp: createRoom_def update_conv' one_connected_drawer_def)

lemma dc_joinRoom:
  assumes new: "map_of (rooms (snd (joinRoom roomId u st))) k = Some room'"
    and old: "\<forall>room. map_of (rooms st) k = Some room \<longrightarrow> one_connected_drawer room"
    and stay: "\<not> upsets_drawer (JoinRoom roomId u) st"
  shows "one_connected_drawer room'"
proof (cases "map_of (rooms st) roomId")
  case None
  with new old show ?thesis by (simp add: joinRoom_def)
next
  case (Some room)
  let ?fi = "findIndex (\<lambda>p. pid p = cid u) (players room)"
  let ?q = "mergePlayer (players room ! nat ?fi) u"
  let ?r1 = "room\<lparr>players := (players room)[nat ?fi := ?q]\<rparr>"
  let ?r2 = "room\<lparr>players := players room @ [newPlayer u]\<rparr>"
  show ?thesis
  proof (cases "k = roomId")
    case False
    have "map_of (rooms (snd (joinRoom roomId u st))) k = map_of (rooms st) k"
      using Some False by (simp add: joinRoom_def Let_def update_conv')
    with new old show ?thesis by simp
  next
    case True
    with old Some have dc: "one_connected_drawer room" by simp
    show ?thesis
    proof (cases "?fi = - 1")
      case True
      have "map_of (rooms (snd (joinRoom roomId u st))) roomId = Some room \<or>
            map_of (rooms (snd (joinRoom roomId u st))) roomId = Some ?r2"
        using Some True by (simp add: joinRoom_def Let_def update_conv')
      moreover have "one_connected_drawer ?r2"
        using dc by (auto simp: one_connected_drawer_def newPlayer_def)
      ultimately show ?thesis using new dc \<open>k = roomId\<close> by auto
    next
      case found: False
      then have lt: "nat ?fi < length (players room)"
        and mem: "players room ! nat ?fi \<in> set (players room)"
        and same: "pid (players room ! nat ?fi) = cid u"
        using findIndex_less [of "\<lambda>p. pid p = cid u" "players room"]
          findIndex_sat [of "\<lambda>p. pid p = cid u" "players room"] by auto
      have q: "isDrawing ?q \<longrightarrow> isDrawing (players room ! nat ?fi) \<and> isConnected ?q"
        if play: "gameStatus room = Playing"
      proof (cases "cisDrawing u = Some True")
        case True
        with stay Some play
        have "\<forall>p\<in>set (players room). pid p = cid u \<longrightarrow> isDrawing p" by simp
        with mem same have "isDrawing (players room ! nat ?fi)" by blast
        then show ?thesis by (simp add: mergePlayer_def)
      next
        case False
        then show ?thesis by (cases "cisDrawing u") (auto simp: mergePlayer_def)
      qed
      have "one_connected_drawer ?r1" using dc lt q by (rule dc_list_update)
      moreover have "map_of (rooms (snd (joinRoom roomId u st))) roomId = Some ?r1"
        using Some found by (simp add: joinRoom_def Let_def update_conv')
      ultimately show ?thesis using new \<open>k = roomId\<close> by simp
    qed
  qed
qed

lemma dc_leaveRoom:
  assumes new: "map_of (rooms (snd (leaveRoom roomId playerId st))) k = Some room'"
    and old: "\<forall>room. map_of (rooms st) k = Some room \<longrightarrow> one_connected_drawer room"
    and stay: "\<not> upsets_drawer (LeaveRoom roomId playerId) st"
  shows "one_connected_drawer room'"
proof (cases "map_of (rooms st) roomId")
  case None
  with assms show ?thesis by (simp add: leaveRoom_def)
next
  case (Some room)
  let ?fi = "findIndex (\<lambda>p. pid p = playerId) (players room)"
  let ?ps = "(players room)[nat ?fi := (players room ! nat ?fi)\<lparr>isConnected := False\<rparr>]"
  let ?r1 = "room\<lparr>players := ?ps\<rparr>"
  show ?thesis
  proof (cases "?fi = - 1")
    case True
    with Some have "snd (leaveRoom roomId playerId st) = st" by (simp add: leaveRoom_def)
    with new old show ?thesis by simp
  next
    case found: False
    show ?thesis
    proof (cases "k = roomId")
      case False
      have "map_of (rooms (snd (leaveRoom roomId playerId st))) k = map_of (rooms st) k"
        using Some found False by (simp add: leaveRoom_def Let_def update_conv' delete_conv')
      with new old show ?thesis by simp
    next
      case True
      with old Some have dc: "one_connected_drawer room" by simp
      from found have lt: "nat ?fi < length (players room)"
        and mem: "players room ! nat ?fi \<in> set (players room)"
        and same: "pid (players room ! nat ?fi) = playerId"
        using findIndex_less [of "\<lambda>p. pid p = playerId" "players room"]
          findIndex_sat [of "\<lambda>p. pid p = playerId" "players room"] by auto
      have q: "isDrawing ((players room ! nat ?fi)\<lparr>isConnected := False\<rparr>) \<longrightarrow>
            isDrawing (players room ! nat ?fi) \<and>
            isConnected ((players room ! nat ?fi)\<lparr>isConnected := False\<rparr>)"
        if play: "gameStatus room = Playing"
      proof -
        from stay Some play
        have "\<forall>p\<in>set (players room). pid p = playerId \<longrightarrow> \<not> isDrawing p" by simp
        with mem same have "\<not> isDrawing (players room ! nat ?fi)" by blast
        then show ?thesis by simp
      qed
      have r1: "one_connected_drawer ?r1" using dc lt q by (rule dc_list_update)
      show ?thesis
      proof (cases "filter isConnected ?ps = []")
        case True
        with Some found have "snd (leaveRoom roomId playerId st) = st\<lparr>rooms := AList.delete roomId (rooms st)\<rparr>"
          by (simp add: leaveRoom_def Let_def)
        with new \<open>k = roomId\<close> show ?thesis by (simp add: delete_conv')
      next
        case False
        have "map_of (rooms (snd (leaveRoom roomId playerId st))) roomId = Some ?r1 \<or>
              map_of (rooms (snd (leaveRoom roomId playerId st))) roomId =
                Some (?r1\<lparr>hostId := pid (filter isConnected ?ps ! 0)\<rparr>)"
          using Some found False
          by (cases "playerId = hostId room") (simp_all add: leaveRoom_def Let_def update_conv')
        with new \<open>k = roomId\<close> r1 show ?thesis by auto
      qed
    qed
  qed
qed

lemma dc_pushMessage:
  assumes "map_of (rooms (pushMessage roomId new m c now st)) k = Some room'"
    and "\<forall>room. map_of (rooms st) k = Some room \<longrightarrow> one_connected_drawer room"
    and "one_connected_drawer new"
  shows "one_connected_drawer room'"
proof -
  have "one_connected_drawer (new\<lparr>messages := messages new @ [m\<lparr>isCorrect := c, timestamp := now\<rparr>]\<rparr>)"
    using assms(3) by simp
  with assms(1,2) show ?thesis unfolding pushMessage_def by (rule dc_update)
qed

lemma dc_addMessage:
  assumes new: "map_of (rooms (snd (addMessage roomId m now st))) k = Some room'"
    and old: "\<forall>room. map_of (rooms st) k = Some room \<longrightarrow> one_connected_drawer room"
  shows "one_connected_drawer room'"
proof (cases "map_of (rooms st) roomId")
  case None
  with assms show ?thesis by (simp add: addMessage_def)
next
  case (Some room)
  let ?r1 = "room\<lparr>correctGuessers := correctGuessers room @ [uid (user m)],
                  players := awardScore (uid (user m)) (players room)\<rparr>"
  have "snd (addMessage roomId m now st) = st \<or>
      (\<exists>m' c. snd (addMessage roomId m now st) = pushMessage roomId room m' c now st) \<or>
      (\<exists>m' c. snd (addMessage roomId m now st) = pushMessage roomId ?r1 m' c now st)"
    using Some by (cases "currentWord room") (simp_all add: addMessage_def Let_def, blast+)
  then consider "snd (addMessage roomId m now st) = st"
    | m' c where "snd (addMessage roomId m now st) = pushMessage roomId room m' c now st"
    | m' c where "snd (addMessage roomId m now st) = pushMessage roomId ?r1 m' c now st"
    by blast
  then show ?thesis
  proof cases
    case 1
    with new old show ?thesis by simp
  next
    case 2
    show ?thesis
    proof (cases "k = roomId")
      case True
      with old Some have "one_connected_drawer room" by simp
      with new old 2 show ?thesis by (simp only: dc_pushMessage)
    next
      case False
      with new old 2 show ?thesis by (simp add: pushMessage_def update_conv')
    qed
  next
    case 3
    show ?thesis
    proof (cases "k = roomId")
      case True
      with old Some have "one_connected_drawer room" by simp
      then have "one_connected_drawer ?r1"
        using dc_awardScore [where room = "room\<lparr>correctGuessers := correctGuessers room @ [uid (user m)]\<rparr>"
            and a = "uid (user m)"] by simp
      with new old 3 show ?thesis by (simp only: dc_pushMessage)
    next
      case False
      with new old 3 show ?thesis by (simp add: pushMessage_def update_conv')
    qed
  qed
qed

lemma dc_startGame:
  assumes ok: "store_ok st"
    and new: "map_of (rooms (snd (startGame roomId r1 r2 words st))) k = Some room'"
    and old: "\<forall>room. map_of (rooms st) k = Some room \<longrightarrow> one_connected_drawer room"
  shows "one_connected_drawer room'"
proof (cases "map_of (rooms st) roomId")
  case None
  with new old show ?thesis by (simp add: startGame_def)
next
  case (Some room)
  with ok have d: "distinct (map pid (players room))" by (auto dest: store_okD simp: room_ok_def)
  let ?cs = "filter isConnected (players room)"
  show ?thesis
  proof (cases "arrayAt ?cs (randomIndex r1 (length ?cs))")
    case None
    with Some have "snd (startGame roomId r1 r2 words st) = st" by (simp add: startGame_def Let_def)
    with new old show ?thesis by simp
  next
    case q: (Some q)
    then have "nat (randomIndex r1 (length ?cs)) < length ?cs \<and>
        q = ?cs ! nat (randomIndex r1 (length ?cs))"
      by (auto simp: arrayAt_def nat_less_iff split: if_splits)
    then have qin: "q \<in> set ?cs" using nth_mem by blast
    show ?thesis
    proof (cases "length ?cs < 2")
      case True
      with Some have "snd (startGame roomId r1 r2 words st) = st" by (simp add: startGame_def)
      with new old show ?thesis by simp
    next
      case False
      let ?new = "room\<lparr>gameStatus := Playing, currentRound := 1,
                        currentWord := arrayAt words (randomIndex r2 (length words)),
                        drawingPlayerId := Some (pid q),
                        roundTimeLeft := roundDuration (settings room),
                        correctGuessers := [],
                        players := map (\<lambda>p. p\<lparr>isDrawing := (pid p = pid q), score := 0\<rparr>) (players room)\<rparr>"
      have "rooms (snd (startGame roomId r1 r2 words st)) = AList.update roomId ?new (rooms st)"
        using Some q False by (simp add: startGame_def Let_def)
      then have "map_of (rooms (st\<lparr>rooms := AList.update roomId ?new (rooms st)\<rparr>)) k = Some room'"
        using new by simp
      moreover have "one_connected_drawer ?new" using d qin by (rule dc_new_drawer)
      ultimately show ?thesis using old by (simp only: dc_update)
    qed
  qed
qed

lemma dc_endRound:
  assumes new: "map_of (rooms (snd (endRound roomId st))) k = Some room'"
    and old: "\<forall>room. map_of (rooms st) k = Some room \<longrightarrow> one_connected_drawer room"
  shows "one_connected_drawer room'"
proof (cases "map_of (rooms st) roomId")
  case None
  with new old show ?thesis by (simp add: endRound_def)
next
  case (Some room)
  show ?thesis
  proof (cases "gameStatus room = Playing")
    case False
    with Some new old show ?thesis by (simp add: endRound_def)
  next
    case True
    with Some have "rooms (snd (endRound roomId st)) =
        AList.update roomId (room\<lparr>gameStatus := RoundEnd\<rparr>) (rooms st)"
      by (simp add: endRound_def)
    then have "map_of (rooms (st\<lparr>rooms := AList.update roomId (room\<lparr>gameStatus := RoundEnd\<rparr>) (rooms st)\<rparr>)) k = Some room'"
      using new by simp
    moreover have "one_connected_drawer (room\<lparr>gameStatus := RoundEnd\<rparr>)" by (simp add: dc_not_playing)
    ultimately show ?thesis using old by (simp only: dc_update)
  qed
qed

lemma nat_mod_lt: "0 < n \<Longrightarrow> nat (x mod int n) < n"
  using pos_mod_bound [of "int n" x] pos_mod_sign [of "int n" x] by linarith

lemma dc_endRoundLater:
  assumes ok: "store_ok st"
    and new: "map_of (rooms (endRoundLater roomId r words st)) k = Some room'"
    and old: "\<forall>room. map_of (rooms st) k = Some room \<longrightarrow> one_connected_drawer room"
  shows "one_connected_drawer room'"
proof (cases "map_of (rooms st) roomId")
  case None
  with new old show ?thesis by (simp add: endRoundLater_def)
next
  case (Some room)
  with ok have d: "distinct (map pid (players room))" by (auto dest: store_okD simp: room_ok_def)
  let ?cs = "filter isConnected (players room)"
  let ?ni = "nat ((findIndex (\<lambda>p. Some (pid p) = drawingPlayerId room) ?cs + 1) mod int (length ?cs))"
  let ?q = "?cs ! ?ni"
  let ?new = "room\<lparr>gameStatus := Playing, currentRound := currentRound room + 1,
                    currentWord := arrayAt words (randomIndex r (length words)),
                    drawingPlayerId := Some (pid ?q),
                    roundTimeLeft := roundDuration (settings room),
                    correctGuessers := [],
                    players := map (\<lambda>p. p\<lparr>isDrawing := (pid p = pid ?q)\<rparr>) (players room)\<rparr>"
  have "(\<exists>g. g \<noteq> Playing \<and> rooms (endRoundLater roomId r words st) =
            AList.update roomId (room\<lparr>gameStatus := g\<rparr>) (rooms st)) \<or>
        2 \<le> length ?cs \<and> rooms (endRoundLater roomId r words st) = AList.update roomId ?new (rooms st)"
    using Some by (auto simp add: endRoundLater_def Let_def)
  then consider g where "g \<noteq> Playing"
      "rooms (endRoundLater roomId r words st) = AList.update roomId (room\<lparr>gameStatus := g\<rparr>) (rooms st)"
    | "2 \<le> length ?cs" "rooms (endRoundLater roomId r words st) = AList.update roomId ?new (rooms st)"
    by blast
  then show ?thesis
  proof cases
    case 1
    then have "map_of (rooms (st\<lparr>rooms := AList.update roomId (room\<lparr>gameStatus := g\<rparr>) (rooms st)\<rparr>)) k = Some room'"
      using new by simp
    moreover have "one_connected_drawer (room\<lparr>gameStatus := g\<rparr>)" using 1(1) by (rule dc_not_playing)
    ultimately show ?thesis using old by (simp only: dc_update)
  next
    case 2
    have "?ni < length ?cs" using 2(1) by (intro nat_mod_lt) arith
    then have qin: "?q \<in> set ?cs" by (rule nth_mem)
    have "map_of (rooms (st\<lparr>rooms := AList.update roomId ?new (rooms st)\<rparr>)) k = Some room'"
      using new 2(2) by simp
    moreover have "one_connected_drawer ?new" using d qin by (rule dc_new_drawer)
    ultimately show ?thesis using old by (simp only: dc_update)
  qed
qed

lemma dc_fireTimeout:
  assumes "store_ok st"
    and "map_of (rooms (fireTimeout roomId r words st)) k = Some room'"
    and "\<forall>room. map_of (rooms st) k = Some room \<longrightarrow> one_connected_drawer room"
  shows "one_connected_drawer room'"
proof (cases "roomId \<in> set (timeouts st)")
  case True
  have "store_ok (st\<lparr>timeouts := remove1 roomId (timeouts st)\<rparr>)" using assms(1) by simp
  moreover have "map_of (rooms (endRoundLater roomId r words (st\<lparr>timeouts := remove1 roomId (timeouts st)\<rparr>))) k = Some room'"
    using assms(2) True by (simp add: fireTimeout_def)
  moreover have "\<forall>room. map_of (rooms (st\<lparr>timeouts := remove1 roomId (timeouts st)\<rparr>)) k = Some room \<longrightarrow> one_connected_drawer room"
    using assms(3) by simp
  ultimately show ?thesis by (rule dc_endRoundLater)
next
  case False
  with assms show ?thesis by (simp add: fireTimeout_def)
qed

lemma dc_tick:
  assumes new: "map_of (rooms (tick roomId st)) k = Some room'"
    and old: "\<forall>room. map_of (rooms st) k = Some room \<longrightarrow> one_connected_drawer room"
  shows "one_connected_drawer room'"
proof (cases "map_of (rooms st) roomId")
  case None
  with new old show ?thesis by (simp add: tick_def countdown_def split: if_splits)
next
  case (Some room)
  let ?new = "room\<lparr>roundTimeLeft := roundTimeLeft room - 1\<rparr>"
  let ?st' = "st\<lparr>rooms := AList.update roomId ?new (rooms st)\<rparr>"
  have mid: "\<forall>room. map_of (rooms ?st') k = Some room \<longrightarrow> one_connected_drawer room"
  proof (intro allI impI)
    fix x
    assume "map_of (rooms ?st') k = Some x"
    moreover have "k = roomId \<Longrightarrow> one_connected_drawer ?new" using old Some by simp
    ultimately show "one_connected_drawer x" using old by (cases "k = roomId") (auto simp: update_conv')
  qed
  have "rooms (tick roomId st) = rooms st \<or> rooms (tick roomId st) = rooms ?st' \<or>
        rooms (tick roomId st) = rooms (snd (endRound roomId (clearInterval roomId ?st')))"
    using Some by (simp add: tick_def countdown_def Let_def)
  then consider "rooms (tick roomId st) = rooms st" | "rooms (tick roomId st) = rooms ?st'"
    | "rooms (tick roomId st) = rooms (snd (endRound roomId (clearInterval roomId ?st')))"
    by blast
  then show ?thesis
  proof cases
    case 1
    with new old show ?thesis by simp
  next
    case 2
    with new mid show ?thesis by simp
  next
    case 3
    then have "map_of (rooms (snd (endRound roomId (clearInterval roomId ?st')))) k = Some room'"
      using new by simp
    moreover have "\<forall>room. map_of (rooms (clearInterval roomId ?st')) k = Some room \<longrightarrow> one_connected_drawer room"
      using mid by simp
    ultimately show ?thesis by (rule dc_endRound)
  qed
qed

lemma dc_cleanupRooms:
  assumes "map_of (rooms (cleanupRooms now st)) k = Some room'"
    and "\<forall>room. map_of (rooms st) k = Some room \<longrightarrow> one_connected_drawer room"
  shows "one_connected_drawer room'"
  using assms by (blast dest: map_of_cleanupRooms_Some)

lemma dc_exec:
  assumes ok: "store_ok st"
    and stay: "\<not> upsets_drawer c st"
    and new: "map_of (rooms (exec c st)) k = Some room'"
    and old: "\<forall>room. map_of (rooms st) k = Some room \<longrightarrow> one_connected_drawer room"
  shows "one_connected_drawer room'"
proof (cases c)
  case (CreateRoom roomId host s now)
  show ?thesis using new old unfolding CreateRoom exec.simps by (rule dc_createRoom)
next
  case (JoinRoom roomId u)
  show ?thesis using new old stay unfolding JoinRoom exec.simps by (rule dc_joinRoom)
next
  case (LeaveRoom roomId playerId)
  show ?thesis using new old stay unfolding LeaveRoom exec.simps by (rule dc_leaveRoom)
next
  case (SendMessage roomId m now)
  show ?thesis using new old unfolding SendMessage exec.simps by (rule dc_addMessage)
next
  case (StartGame roomId r1 r2 words)
  show ?thesis using ok new old unfolding StartGame exec.simps by (rule dc_startGame)
next
  case (EndRound roomId)
  show ?thesis using new old unfolding EndRound exec.simps by (rule dc_endRound)
next
  case (Tick roomId)
  show ?thesis using new old unfolding Tick exec.simps by (rule dc_tick)
next
  case (FireTimeout roomId r words)
  show ?thesis using ok new old unfolding FireTimeout exec.simps by (rule dc_fireTimeout)
next
  case (Cleanup now)
  show ?thesis using new old unfolding Cleanup exec.simps by (rule dc_cleanupRooms)
qed

lemma steady_run_keeps:
  assumes "store_ok st"
    and "\<forall>k room. map_of (rooms st) k = Some room \<longrightarrow> one_connected_drawer room"
    and "steady_run cs st"
  shows "\<forall>k room. map_of (rooms (fold exec cs st)) k = Some room \<longrightarrow> one_connected_drawer room"
  using assms
proof (induction cs arbitrary: st)
  case Nil
  then show ?case by simp
next
  case (Cons c cs)
  have "store_ok (exec c st)" using Cons.prems(1) by (rule store_ok_exec)
  moreover have "\<forall>k room. map_of (rooms (exec c st)) k = Some room \<longrightarrow> one_connected_drawer room"
  proof (intro allI impI)
    fix k room'
    assume "map_of (rooms (exec c st)) k = Some room'"
    moreover have "\<not> upsets_drawer c st" using Cons.prems(3) by simp
    moreover have "\<forall>room. map_of (rooms st) k = Some room \<longrightarrow> one_connected_drawer room"
      using Cons.prems(2) by blast
    ultimately show "one_connected_drawer room'" using Cons.prems(1) by (blast intro: dc_exec)
  qed
  moreover have "steady_run cs (exec c st)" using Cons.prems(3) by simp
  ultimately show ?case using Cons.IH [of "exec c st"] by simp
qed

section \<open>At most one countdown, under the guard\<close>


















section \<open>The example runs, evaluated\<close>

lemma run_snoc: "run (cs @ [c]) = exec c (run cs)"
  by (simp add: run_def)

lemma run_alone: "run alone = aloneState"
  by code_simp

lemma run_started: "run started = startedState"
  by code_simp

lemma run_guessed: "run (started @ [SendMessage ''100000'' (guess bob) 5000]) = guessedState"
  unfolding run_snoc run_started by code_simp

lemma run_roundOver: "run (started @ [Tick ''100000''] @ [Tick ''100000'']) = roundOverState"
  unfolding append_assoc [symmetric] run_snoc run_started by code_simp

lemma run_drawerGone: "run (started @ [LeaveRoom ''100000'' ''alice'']) = drawerGoneState"
  unfolding run_snoc run_started by code_simp

lemma run_shortGame: "run shortGame = shortState"
  by code_simp

lemma run_forged:
  "run (started @ [JoinRoom ''100000'' ((plain bob)\<lparr>cisDrawing := Some True\<rparr>)])
     = startedState\<lparr>rooms := [(''100000'', forgedRoom)]\<rparr>"
  unfolding run_snoc run_started by code_simp

lemma run_drawerGoneOver:
  "run ((started @ [LeaveRoom ''100000'' ''alice'']) @ [Tick ''100000''] @ [Tick ''100000''])
     = drawerGoneOverState"
  unfolding append_assoc [symmetric] run_snoc run_drawerGone by code_simp

lemma roundEnd_few:
  assumes look: "map_of (rooms st) roomId = Some room"
    and play: "gameStatus room = Playing"
    and few: "length (connectedIds room) < 2"
    and more: "currentRound room < totalRounds room"
  shows "\<exists>room'. map_of (rooms (roundEnd roomId rw st)) roomId = Some room' \<and>
           connectedIds room' = connectedIds room \<and>
           drawingPlayerId room' = drawingPlayerId room"
proof -
  let ?st0 = "snd (endRound roomId (clearInterval roomId st))"
  let ?st1 = "?st0\<lparr>timeouts := remove1 roomId (timeouts ?st0)\<rparr>"
  have e: "map_of (rooms ?st1) roomId = Some (room\<lparr>gameStatus := RoundEnd\<rparr>)"
    and t: "roomId \<in> set (timeouts ?st0)"
    using look play by (simp_all add: endRound_def update_conv')
  have "roundEnd roomId rw st = endRoundLater roomId (fst rw) (snd rw) ?st1"
    using t by (simp add: roundEnd_def fireTimeout_def)
  moreover have "\<exists>room'. map_of (rooms (endRoundLater roomId (fst rw) (snd rw) ?st1)) roomId = Some room' \<and>
           connectedIds room' = connectedIds room \<and>
           drawingPlayerId room' = drawingPlayerId room"
    using e more few by (simp add: endRoundLater_def Let_def update_conv' connectedIds_def)
  ultimately show ?thesis by simp
qed

section \<open>The properties\<close>

subsection \<open>Guesses\<close>




text \<open>
  Claim C7. In a reachable state, in a room that is playing, a message whose author is
  already among the correct guessers and whose text again equals the current word
  (lower-cased and trimmed) is appended to the log with the ``already guessed'' marker as
  its text and \<^verbatim>\<open>isCorrect = false\<close>, and nothing else of the room changes: no score, not
  \<^verbatim>\<open>correctGuessers\<close>. The call returns success with \<^verbatim>\<open>isCorrect = false\<close>.
\<close>

theorem addMessage_repeated_guess:
  assumes "reachable st"
    and "map_of (rooms st) roomId = Some room"
    and "gameStatus room = Playing"
    and "uid (user m) \<in> set (correctGuessers room)"
    and "currentWord room = Some word"
    and "trim (toLowerCase (mtext m)) = trim (toLowerCase word)"
  shows "fst (addMessage roomId m now st) = Inr False \<and>
         map_of (rooms (snd (addMessage roomId m now st))) roomId =
           Some (room\<lparr>messages := messages room @
                   [m\<lparr>mtext := alreadyMarker, isCorrect := False, timestamp := now\<rparr>]\<rparr>)"
proof -
  have "room_ok room" using assms(1,2) by (blast intro: store_okD reachable_store_ok)
  with assms(4) have "Some (uid (user m)) \<noteq> drawingPlayerId room"
    by (force simp: room_ok_def)
  with assms show ?thesis by (simp add: addMessage_def Let_def rooms_pushMessage)
qed

theorem addMessage_repeated_guess_witness:
  "uid (user (guess bob)) \<in> set (correctGuessers guessedRoom) \<and>
   fst (addMessage ''100000'' (guess bob) 6000 guessedState) = Inr False \<and>
   map_of (rooms (snd (addMessage ''100000'' (guess bob) 6000 guessedState))) ''100000'' =
     Some (guessedRoom\<lparr>messages := messages guessedRoom @
             [(guess bob)\<lparr>mtext := alreadyMarker, isCorrect := False, timestamp := 6000\<rparr>]\<rparr>)"
proof -
  have reach: "reachable guessedState"
    using reachable_run [of "started @ [SendMessage ''100000'' (guess bob) 5000]"]
    by (simp only: run_guessed)
  have h: "map_of (rooms guessedState) ''100000'' = Some guessedRoom"
    "gameStatus guessedRoom = Playing"
    "uid (user (guess bob)) \<in> set (correctGuessers guessedRoom)"
    "currentWord guessedRoom = Some ''banana''"
    "trim (toLowerCase (mtext (guess bob))) = trim (toLowerCase ''banana'')"
    by code_simp+
  show ?thesis
    using addMessage_repeated_guess [OF reach h, of 6000] h(3) by simp
qed



subsection \<open>Starting a game\<close>

text \<open>
  Claim C4. For a room with fewer than two connected players, \<^verbatim>\<open>startGame\<close> returns the
  failure ``Need at least 2 players to start'' and the whole server state, so the room
  and its \<^verbatim>\<open>gameStatus\<close>, is what it was before the call.
\<close>

theorem startGame_insufficient_players:
  assumes "map_of (rooms st) roomId = Some room"
    and "length (filter isConnected (players room)) < 2"
  shows "startGame roomId r1 r2 words st = (Inl InsufficientPlayers, st) \<and>
         failure_message InsufficientPlayers = Some ''Need at least 2 players to start''"
  using assms by (simp add: startGame_def)

theorem startGame_insufficient_players_witness:
  "length (filter isConnected (players aloneRoom)) < 2 \<and>
   startGame ''100000'' 0 (1 / 2) demoWords aloneState = (Inl InsufficientPlayers, aloneState)"
proof -
  have h: "map_of (rooms aloneState) ''100000'' = Some aloneRoom"
    "length (filter isConnected (players aloneRoom)) < 2"
    by code_simp+
  show ?thesis
    using startGame_insufficient_players [OF h, of 0 "1 / 2" demoWords] h(2) by simp
qed

subsection \<open>The continuation of endRound\<close>

text \<open>
  Claim C6. In a reachable state, for a room that still exists, the delayed continuation of
  \<^verbatim>\<open>endRound\<close> does exactly one of three things. If \<^verbatim>\<open>currentRound\<close> has reached
  \<^verbatim>\<open>settings.rounds\<close>, it sets \<^verbatim>\<open>gameStatus\<close> to \<^verbatim>\<open>gameEnd\<close> and starts no countdown. Otherwise,
  if fewer than two players are connected, it sets \<^verbatim>\<open>gameStatus\<close> to \<^verbatim>\<open>waiting\<close> (and again
  starts no countdown). Otherwise it increments \<^verbatim>\<open>currentRound\<close> by one, stores the word it
  picked at its random index, resets \<^verbatim>\<open>roundTimeLeft\<close> to \<^verbatim>\<open>settings.roundDuration\<close>, empties
  \<^verbatim>\<open>correctGuessers\<close>, sets \<^verbatim>\<open>gameStatus\<close> to \<^verbatim>\<open>playing\<close> and starts one new countdown.
\<close>

theorem endRoundLater_cases:
  assumes "reachable st"
    and "map_of (rooms st) roomId = Some room"
  shows "if currentRound room \<ge> rounds (settings room) then
           map_of (rooms (endRoundLater roomId r words st)) roomId
             = Some (room\<lparr>gameStatus := GameEnd\<rparr>) \<and>
           intervals (endRoundLater roomId r words st) = intervals st
         else if length (filter isConnected (players room)) < 2 then
           map_of (rooms (endRoundLater roomId r words st)) roomId
             = Some (room\<lparr>gameStatus := Waiting\<rparr>) \<and>
           intervals (endRoundLater roomId r words st) = intervals st
         else
           (\<exists>room'. map_of (rooms (endRoundLater roomId r words st)) roomId = Some room' \<and>
              currentRound room' = currentRound room + 1 \<and>
              currentWord room' = arrayAt words (randomIndex r (length words)) \<and>
              roundTimeLeft room' = roundDuration (settings room) \<and>
              correctGuessers room' = [] \<and>
              gameStatus room' = Playing) \<and>
           intervals (endRoundLater roomId r words st) = intervals st @ [roomId]"
proof -
  have "room_ok room" using assms by (blast intro: store_okD reachable_store_ok)
  then have tr: "totalRounds room = rounds (settings room)" by (simp add: room_ok_def)
  show ?thesis
  proof (cases "currentRound room \<ge> rounds (settings room)")
    case True
    with assms(2) tr show ?thesis by (simp add: endRoundLater_def update_conv')
  next
    case notEnd: False
    show ?thesis
    proof (cases "length (filter isConnected (players room)) < 2")
      case True
      with assms(2) tr notEnd show ?thesis by (simp add: endRoundLater_def update_conv')
    next
      case False
      with assms(2) tr notEnd show ?thesis
        by (simp add: endRoundLater_def Let_def update_conv' intervals_startRoundTimer)
    qed
  qed
qed

theorem endRoundLater_cases_witness:
  "(\<exists>room'. map_of (rooms (endRoundLater ''100000'' (2 / 3) demoWords roundOverState)) ''100000''
              = Some room' \<and>
      currentRound room' = 2 \<and>
      currentWord room' = Some ''car'' \<and>
      roundTimeLeft room' = 2 \<and>
      correctGuessers room' = [] \<and>
      gameStatus room' = Playing) \<and>
   intervals (endRoundLater ''100000'' (2 / 3) demoWords roundOverState) = [''100000'']"
proof -
  have reach: "reachable roundOverState"
    using reachable_run [of "started @ [Tick ''100000''] @ [Tick ''100000'']"]
    by (simp only: run_roundOver)
  have look: "map_of (rooms roundOverState) ''100000'' = Some roundOverRoom"
    by code_simp
  have c: "\<not> currentRound roundOverRoom \<ge> rounds (settings roundOverRoom)"
    "\<not> length (filter isConnected (players roundOverRoom)) < 2"
    by code_simp+
  have v: "currentRound roundOverRoom + 1 = 2"
    "arrayAt demoWords (randomIndex (2 / 3) (length demoWords)) = Some ''car''"
    "roundDuration (settings roundOverRoom) = 2"
    "intervals roundOverState @ [''100000''] = [''100000'']"
    by code_simp+
  show ?thesis
    using endRoundLater_cases [OF reach look, of "2 / 3" demoWords]
    by (simp only: c v if_False)
qed

text \<open>
  Claim C10. In the round-advance branch of the continuation (rounds remain and at least
  two players are connected), when no connected player has the id in \<^verbatim>\<open>drawingPlayerId\<close>,
  the next drawer is the first connected player in join order.
\<close>

theorem endRoundLater_drawer_absent:
  assumes "map_of (rooms st) roomId = Some room"
    and "currentRound room < totalRounds room"
    and "2 \<le> length (filter isConnected (players room))"
    and "\<forall>p\<in>set (filter isConnected (players room)). Some (pid p) \<noteq> drawingPlayerId room"
  shows "\<exists>room'. map_of (rooms (endRoundLater roomId r words st)) roomId = Some room' \<and>
           gameStatus room' = Playing \<and>
           drawingPlayerId room' = Some (pid (filter isConnected (players room) ! 0)) \<and>
           players room' =
             map (\<lambda>p. p\<lparr>isDrawing := (pid p = pid (filter isConnected (players room) ! 0))\<rparr>)
               (players room)"
proof -
  have "findIndex (\<lambda>p. Some (pid p) = drawingPlayerId room) (filter isConnected (players room)) = - 1"
    using assms(4) by (simp only: findIndex_none)
  with assms(1-3) show ?thesis
    by (simp add: endRoundLater_def Let_def update_conv')
qed

theorem endRoundLater_drawer_absent_witness:
  "drawingPlayerId drawerGoneOverRoom = Some ''alice'' \<and>
   connectedIds drawerGoneOverRoom = [''bob'', ''carol''] \<and>
   (\<exists>room'. map_of (rooms (endRoundLater ''100000'' (2 / 3) demoWords drawerGoneOverState)) ''100000''
              = Some room' \<and>
      gameStatus room' = Playing \<and>
      drawingPlayerId room' = Some ''bob'')"
proof -
  have h: "map_of (rooms drawerGoneOverState) ''100000'' = Some drawerGoneOverRoom"
    "currentRound drawerGoneOverRoom < totalRounds drawerGoneOverRoom"
    "2 \<le> length (filter isConnected (players drawerGoneOverRoom))"
    "\<forall>p\<in>set (filter isConnected (players drawerGoneOverRoom)).
       Some (pid p) \<noteq> drawingPlayerId drawerGoneOverRoom"
    by code_simp+
  have v: "drawingPlayerId drawerGoneOverRoom = Some ''alice''"
    "connectedIds drawerGoneOverRoom = [''bob'', ''carol'']"
    "pid (filter isConnected (players drawerGoneOverRoom) ! 0) = ''bob''"
    by code_simp+
  show ?thesis
    using endRoundLater_drawer_absent [OF h, of "2 / 3" demoWords] by (auto simp: v)
qed

subsection \<open>The sweep\<close>

text \<open>
  Claim C8. After one \<^verbatim>\<open>cleanupRooms\<close> sweep at time \<open>now\<close> the store holds, under each room
  id, what it held before unless that room has no connected player or was created more
  than six hours (in milliseconds) before \<open>now\<close>; such a room is gone, whether or not
  players are connected to it. So a room with a connected player and of age at most six
  hours is still there, unchanged.
\<close>

theorem cleanupRooms_removes:
  "map_of (rooms (cleanupRooms now st)) k =
     (case map_of (rooms st) k of
        None \<Rightarrow> None
      | Some room \<Rightarrow>
          if filter isConnected (players room) = [] \<or>
             (case createdAt room of
                None \<Rightarrow> False
              | Some created \<Rightarrow> now - created > 6 * 60 * 60 * 1000)
          then None else Some room)"
  by (simp add: map_of_cleanupRooms sweep_def)

theorem cleanupRooms_removes_witness:
  "map_of (rooms (cleanupRooms 21601001 (run threeRooms))) ''100000'' = None \<and>
   map_of (rooms (cleanupRooms 21601001 (run threeRooms))) ''200000'' = None \<and>
   map_of (rooms (cleanupRooms 21601001 (run threeRooms))) ''300000'' = Some carolRoom"
proof -
  have r: "map_of (rooms (run threeRooms)) ''100000'' = Some aloneRoom"
    "map_of (rooms (run threeRooms)) ''200000'' =
       Some (aloneRoom\<lparr>rid := ''200000'', hostId := ''bob'', players := [],
                       createdAt := Some 20000000\<rparr>)"
    "map_of (rooms (run threeRooms)) ''300000'' = Some carolRoom"
    by code_simp+
  have v: "filter isConnected (players aloneRoom) \<noteq> []" "createdAt aloneRoom = Some 1000"
    "filter isConnected (players carolRoom) \<noteq> []" "createdAt carolRoom = Some 20000000"
    by code_simp+
  show ?thesis
    using cleanupRooms_removes [of 21601001 "run threeRooms" "''100000''"]
      cleanupRooms_removes [of 21601001 "run threeRooms" "''200000''"]
      cleanupRooms_removes [of 21601001 "run threeRooms" "''300000''"]
    by (simp add: r v)
qed

subsection \<open>Drawer rotation\<close>

text \<open>
  Claim C5, as the code has it. Take a reachable state and a room that is playing, with
  \<open>N\<close> connected players, whose drawer is the connected player at position \<open>i\<close> of the
  join order. A round end that finds rounds left to play makes the connected player at
  position \<open>(i + 1) mod N\<close> the drawer: the one right after the previous drawer,
  wrapping around. And when \<open>N\<close> round ends follow one another with no join or leave
  between them, each of them finding rounds left to play (\<^verbatim>\<open>currentRound + N\<close> is at most
  \<^verbatim>\<open>totalRounds\<close>), the connected players are the same afterwards and the drawer is again
  the player who drew first.
\<close>

theorem drawer_rotation_cyclic:
  assumes reach: "reachable st"
    and look: "map_of (rooms st) roomId = Some room"
    and play: "gameStatus room = Playing"
    and i: "i < length (connectedIds room)"
    and drawer: "drawingPlayerId room = Some (connectedIds room ! i)"
  shows "(currentRound room < totalRounds room \<longrightarrow>
            (\<exists>room'. map_of (rooms (roundEnd roomId rw st)) roomId = Some room' \<and>
               drawingPlayerId room' =
                 Some (connectedIds room ! ((i + 1) mod length (connectedIds room))))) \<and>
         (length rws = length (connectedIds room) \<and>
          currentRound room + int (length rws) \<le> totalRounds room \<longrightarrow>
            (\<exists>room'. map_of (rooms (fold (roundEnd roomId) rws st)) roomId = Some room' \<and>
               connectedIds room' = connectedIds room \<and>
               drawingPlayerId room' = drawingPlayerId room))"
proof (cases "2 \<le> length (connectedIds room)")
  case two: True
  have "room_ok room" using reach look by (blast intro: store_okD reachable_store_ok)
  then have dist: "distinct (connectedIds room)"
    by (simp add: room_ok_def connectedIds_def distinct_map_filter)
  have first: "\<exists>room'. map_of (rooms (roundEnd roomId rw st)) roomId = Some room' \<and>
            drawingPlayerId room' =
              Some (connectedIds room ! ((i + 1) mod length (connectedIds room)))"
    if one: "currentRound room < totalRounds room"
    using roundEnd_step [OF look play dist i drawer two one, of rw] by blast
  have all: "\<exists>room'. map_of (rooms (fold (roundEnd roomId) rws st)) roomId = Some room' \<and>
            connectedIds room' = connectedIds room \<and>
            drawingPlayerId room' = drawingPlayerId room"
    if len: "length rws = length (connectedIds room)"
      and more: "currentRound room + int (length rws) \<le> totalRounds room"
  proof -
    have "(i + length rws) mod length (connectedIds room) = i" using i len by simp
    with roundEnd_steps [OF look play dist i drawer two more] drawer
    show ?thesis by auto
  qed
  from first all show ?thesis by blast
next
  case False
  with i have n: "length (connectedIds room) = 1" and i0: "i = 0" by auto
  from n have few: "length (connectedIds room) < 2" by simp
  have first: "\<exists>room'. map_of (rooms (roundEnd roomId rw st)) roomId = Some room' \<and>
            drawingPlayerId room' =
              Some (connectedIds room ! ((i + 1) mod length (connectedIds room)))"
    if one: "currentRound room < totalRounds room"
    using roundEnd_few [OF look play few one, of rw] n i0 drawer by auto
  have all: "\<exists>room'. map_of (rooms (fold (roundEnd roomId) rws st)) roomId = Some room' \<and>
            connectedIds room' = connectedIds room \<and>
            drawingPlayerId room' = drawingPlayerId room"
    if len: "length rws = length (connectedIds room)"
      and more: "currentRound room + int (length rws) \<le> totalRounds room"
  proof -
    from len n obtain rw' where rws: "rws = [rw']" by (cases rws) auto
    from more rws have one: "currentRound room < totalRounds room" by simp
    show ?thesis using roundEnd_few [OF look play few one, of rw'] rws by auto
  qed
  from first all show ?thesis by blast
qed

theorem drawer_rotation_cyclic_witness:
  "currentRound shortRoom + 3 > totalRounds shortRoom \<and>
   drawingPlayerId shortRoom = Some ''alice'' \<and>
   (\<exists>room'. map_of (rooms (roundEnd ''100000'' (0, demoWords) shortState)) ''100000'' = Some room' \<and>
      drawingPlayerId room' = Some ''bob'') \<and>
   connectedIds startedRoom = [''alice'', ''bob'', ''carol''] \<and>
   drawingPlayerId startedRoom = Some ''alice'' \<and>
   (\<exists>room'. map_of (rooms (fold (roundEnd ''100000'')
                [(0, demoWords), (1 / 2, demoWords), (2 / 3, demoWords)] startedState)) ''100000''
              = Some room' \<and>
      connectedIds room' = [''alice'', ''bob'', ''carol''] \<and>
      drawingPlayerId room' = Some ''alice'')"
proof -
  have reach: "reachable startedState"
    using reachable_run [of started] by (simp only: run_started)
  have reachS: "reachable shortState"
    using reachable_run [of shortGame] by (simp only: run_shortGame)
  have v: "connectedIds startedRoom = [''alice'', ''bob'', ''carol'']"
    "drawingPlayerId startedRoom = Some ''alice''"
    "connectedIds shortRoom = [''alice'', ''bob'', ''carol'']"
    "drawingPlayerId shortRoom = Some ''alice''"
    "currentRound shortRoom + 3 > totalRounds shortRoom"
    "currentRound shortRoom < totalRounds shortRoom"
    by code_simp+
  have h: "map_of (rooms startedState) ''100000'' = Some startedRoom"
    "gameStatus startedRoom = Playing"
    "0 < length (connectedIds startedRoom)"
    "drawingPlayerId startedRoom = Some (connectedIds startedRoom ! 0)"
    by code_simp+
  have hS: "map_of (rooms shortState) ''100000'' = Some shortRoom"
    "gameStatus shortRoom = Playing"
    "0 < length (connectedIds shortRoom)"
    "drawingPlayerId shortRoom = Some (connectedIds shortRoom ! 0)"
    by code_simp+
  have l: "length [(0 :: rat, demoWords), (1 / 2, demoWords), (2 / 3, demoWords)]
       = length (connectedIds startedRoom) \<and>
     currentRound startedRoom
       + int (length [(0 :: rat, demoWords), (1 / 2, demoWords), (2 / 3, demoWords)])
       \<le> totalRounds startedRoom"
    by code_simp
  show ?thesis
    using drawer_rotation_cyclic [OF reachS hS, of "(0, demoWords)" "[]"]
      drawer_rotation_cyclic [OF reach h, of "(0, demoWords)"
        "[(0, demoWords), (1 / 2, demoWords), (2 / 3, demoWords)]"] l
    by (simp add: v)
qed

text \<open>
  Against claim C5 as stated: three connected players and three rounds. The third round
  end ends the game without rotating, so after three round ends in a row the drawer is
  Carol, not Alice who drew first.
\<close>

theorem rotation_game_end_counterexample:
  "map_of (rooms (run shortGame)) ''100000'' = Some shortRoom \<and>
   connectedIds shortRoom = [''alice'', ''bob'', ''carol''] \<and>
   drawingPlayerId shortRoom = Some ''alice'' \<and>
   map_of (rooms (fold (roundEnd ''100000'')
                    [(0, demoWords), (1 / 2, demoWords), (2 / 3, demoWords)] (run shortGame)))
     ''100000'' = Some shortOverRoom \<and>
   connectedIds shortOverRoom = [''alice'', ''bob'', ''carol''] \<and>
   drawingPlayerId shortOverRoom = Some ''carol''"
  by code_simp

subsection \<open>Live countdowns\<close>




subsection \<open>The drawer\<close>

text \<open>
  Claim C2, as the code has it. Take any run of the server's operations (create, join,
  leave, message, start, round end, countdown, continuation, sweep) in which no player
  marked as drawing leaves a room that is playing, and no \<^verbatim>\<open>joinRoom\<close> carries
  \<^verbatim>\<open>isDrawing: true\<close> for a player who is in a room that is playing and is not marked as
  drawing in it. In every room of the state it reaches, while \<^verbatim>\<open>gameStatus\<close> is \<^verbatim>\<open>playing\<close>
  at most one player has \<^verbatim>\<open>isDrawing = true\<close>, and that player has \<^verbatim>\<open>isConnected = true\<close>.
\<close>

theorem drawer_invariant:
  assumes "steady_run cs initial"
    and "map_of (rooms (run cs)) k = Some room"
  shows "one_connected_drawer room"
proof -
  have "store_ok initial" by (simp add: store_ok_def initial_def)
  moreover have "\<forall>k room. map_of (rooms initial) k = Some room \<longrightarrow> one_connected_drawer room"
    by (simp add: initial_def)
  ultimately have "\<forall>k room. map_of (rooms (fold exec cs initial)) k = Some room \<longrightarrow>
      one_connected_drawer room"
    using assms(1) by (rule steady_run_keeps)
  with assms(2) show ?thesis by (simp add: run_def)
qed

theorem drawer_invariant_witness:
  "steady_run (started @ [LeaveRoom ''100000'' ''bob'']) initial \<and>
   map_of (rooms (run (started @ [LeaveRoom ''100000'' ''bob'']))) ''100000'' =
     Some (startedRoom\<lparr>players := [(newPlayer (plain alice))\<lparr>isDrawing := True\<rparr>,
                                    (newPlayer (plain bob))\<lparr>isConnected := False\<rparr>,
                                    newPlayer (plain carol)]\<rparr>) \<and>
   one_connected_drawer
     (startedRoom\<lparr>players := [(newPlayer (plain alice))\<lparr>isDrawing := True\<rparr>,
                               (newPlayer (plain bob))\<lparr>isConnected := False\<rparr>,
                               newPlayer (plain carol)]\<rparr>)"
proof -
  have s: "steady_run (started @ [LeaveRoom ''100000'' ''bob'']) initial"
    by code_simp
  have r: "map_of (rooms (run (started @ [LeaveRoom ''100000'' ''bob'']))) ''100000'' =
     Some (startedRoom\<lparr>players := [(newPlayer (plain alice))\<lparr>isDrawing := True\<rparr>,
                                    (newPlayer (plain bob))\<lparr>isConnected := False\<rparr>,
                                    newPlayer (plain carol)]\<rparr>)"
    unfolding run_snoc run_started by code_simp
  show ?thesis using drawer_invariant [OF s r] s r by simp
qed

text \<open>
  Against claim C2 as stated. Alice is drawing and leaves: the room goes on playing with
  Alice marked as drawing and not connected. And Bob, in the room and not drawing, joins
  again with a client object that carries \<^verbatim>\<open>isDrawing: true\<close>: the room goes on playing with
  two players marked as drawing.
\<close>

theorem drawer_leaves_counterexample:
  "upsets_drawer (LeaveRoom ''100000'' ''alice'') (run started) \<and>
   map_of (rooms (run (started @ [LeaveRoom ''100000'' ''alice'']))) ''100000''
     = Some drawerGoneRoom \<and>
   gameStatus drawerGoneRoom = Playing \<and>
   pid (players drawerGoneRoom ! 0) = ''alice'' \<and>
   isDrawing (players drawerGoneRoom ! 0) \<and>
   \<not> isConnected (players drawerGoneRoom ! 0) \<and>
   \<not> one_connected_drawer drawerGoneRoom \<and>
   upsets_drawer (JoinRoom ''100000'' ((plain bob)\<lparr>cisDrawing := Some True\<rparr>)) (run started) \<and>
   map_of (rooms (run (started @ [JoinRoom ''100000'' ((plain bob)\<lparr>cisDrawing := Some True\<rparr>)])))
     ''100000'' = Some forgedRoom \<and>
   gameStatus forgedRoom = Playing \<and>
   length (filter isDrawing (players forgedRoom)) = 2 \<and>
   \<not> one_connected_drawer forgedRoom"
  unfolding run_drawerGone run_forged run_started by code_simp

end
